theory Spec2Isabelle
  imports Main "HOL-Library.Word" "HOL-Library.Monad_Syntax"
begin

section \<open>The GDB JIT interface of the runtime (runtime/jit/debugger\_interface.cc)\<close>

text \<open>
  The embedding follows the C++ source function by function. The globals of the
  translation unit, the three kinds of heap objects it allocates and the lock are the
  fields of one record; every function takes the state and returns the new one.
  A call that does not return normally has the value \<open>None\<close>: a failed \<open>CHECK\<close>,
  a failed \<open>DCHECK\<close> in a build that enables them, a read or write through a null or
  dangling pointer, or waiting for a lock that is never released.

  Integer widths are those of an LP64 target (64-bit pointers, \<open>size_t\<close> and
  \<open>uintptr_t\<close>); \<open>uint32_t\<close> and \<open>uint64_t\<close> are as declared. All arithmetic
  on them wraps around, as it does in the source.
\<close>

subsection \<open>Types of the source\<close>

type_synonym addr = "64 word"
type_synonym uint8_t = "8 word"
type_synonym uint32_t = "32 word"
type_synonym uint64_t = "64 word"
type_synonym size_t = "64 word"
type_synonym Thread = addr

text \<open>The enum \<open>JITAction\<close>; the descriptor stores its value in a \<open>uint32_t\<close>.\<close>

definition JIT_NOACTION :: uint32_t where
  "JIT_NOACTION = 0"

definition JIT_REGISTER_FN :: uint32_t where
  "JIT_REGISTER_FN = 1"

definition JIT_UNREGISTER_FN :: uint32_t where
  "JIT_UNREGISTER_FN = 2"

text \<open>Field names lose the trailing underscore of the source, which a constant name
  may not end with. The links \<open>next_\<close> and \<open>prev_\<close> carry the prefix of their
  record, since a field name belongs to one record type.\<close>

record JITCodeEntry =
  jit_next :: addr
  jit_prev :: addr
  symfile_addr :: addr
  symfile_size :: uint64_t
  ref_count :: uint32_t

record JITDescriptor =
  version :: uint32_t
  action_flag :: uint32_t
  relevant_entry :: addr
  first_entry :: addr

record DEXFileEntry =
  dex_next :: addr
  dex_prev :: addr
  dexfile :: addr

text \<open>\<open>sizeof(JITCodeEntry)\<close> and \<open>sizeof(void*)\<close> on the LP64 target: four
  8-byte fields, one 4-byte field and 4 bytes of padding.\<close>

definition sizeof_JITCodeEntry :: size_t where
  "sizeof_JITCodeEntry = 40"

definition sizeof_void_ptr :: size_t where
  "sizeof_void_ptr = 8"

subsection \<open>\<open>std::unordered_map\<close>\<close>

text \<open>
  A map with unique keys whose number of elements can be read: an association list.
  \<open>emplace\<close> inserts nothing when the key is present, \<open>operator[]\<close> inserts a
  value-initialised element when the key is absent, \<open>erase\<close> removes the key.
\<close>

type_synonym ('k, 'v) unordered_map = "('k \<times> 'v) list"

definition um_find :: "('k, 'v) unordered_map \<Rightarrow> 'k \<Rightarrow> 'v option" where
  "um_find m k = map_of m k"

definition um_count :: "('k, 'v) unordered_map \<Rightarrow> 'k \<Rightarrow> nat" where
  "um_count m k = (case map_of m k of None \<Rightarrow> 0 | Some v \<Rightarrow> 1)"

definition um_emplace :: "'k \<Rightarrow> 'v \<Rightarrow> ('k, 'v) unordered_map \<Rightarrow> ('k, 'v) unordered_map" where
  "um_emplace k v m = (case map_of m k of None \<Rightarrow> (k, v) # m | Some w \<Rightarrow> m)"

definition um_subscript :: "'k \<Rightarrow> ('k, addr) unordered_map \<Rightarrow> addr \<times> ('k, addr) unordered_map" where
  "um_subscript k m = (case map_of m k of None \<Rightarrow> (0, (k, 0) # m) | Some v \<Rightarrow> (v, m))"

definition um_erase :: "'k \<Rightarrow> ('k, 'v) unordered_map \<Rightarrow> ('k, 'v) unordered_map" where
  "um_erase k m = filter (\<lambda>kv. fst kv \<noteq> k) m"

definition um_size :: "('k, 'v) unordered_map \<Rightarrow> nat" where
  "um_size m = length m"

subsection \<open>The state\<close>

text \<open>
  The globals keep their names, without the leading and trailing underscores. The three heaps hold
  the objects that are allocated and not yet freed: \<open>JITCodeEntry\<close> and
  \<open>DEXFileEntry\<close> records and \<open>uint8_t\<close> arrays. The lock is
  \<open>Locks::native_debug_interface_lock_\<close>, with its owner.
\<close>

record memory =
  jit_debug_descriptor :: JITDescriptor
  jit_debug_descriptor_timestamp :: uint32_t
  art_debug_dexfiles :: addr
  art_debug_dexfiles_timestamp :: uint32_t
  g_jit_debug_mem_usage :: size_t
  g_dexfile_entries :: "(addr, addr) unordered_map"
  g_jit_code_entries :: "(addr, addr) unordered_map"
  native_debug_interface_lock :: "Thread option"
  JITCodeEntry_heap :: "addr \<rightharpoonup> JITCodeEntry"
  DEXFileEntry_heap :: "addr \<rightharpoonup> DEXFileEntry"
  uint8_heap :: "addr \<rightharpoonup> uint8_t list"

text \<open>
  What an observer of the process can see happen, each time with the memory as it is
  at that moment: the lock being taken, the lock being given back, and a call through
  \<open>__jit_debug_register_code_ptr\<close>, the function on which the debugger puts its
  breakpoint. The state is the memory together with the sequence of these events.
\<close>

datatype event = LockAcquired | LockReleased | RegisterCodeCalled

record state = memory +
  trace :: "(event \<times> memory) list"

definition observe :: "event \<Rightarrow> state \<Rightarrow> state" where
  "observe ev s = s\<lparr>trace := trace s @ [(ev, memory.truncate s)]\<rparr>"

definition jit_debug_register_code_ptr :: "state \<Rightarrow> state" where
  "jit_debug_register_code_ptr s = observe RegisterCodeCalled s"

definition initial_state :: state where
  "initial_state =
     \<lparr>jit_debug_descriptor =
        \<lparr>version = 1, action_flag = JIT_NOACTION, relevant_entry = 0, first_entry = 0\<rparr>,
      jit_debug_descriptor_timestamp = 0,
      art_debug_dexfiles = 0,
      art_debug_dexfiles_timestamp = 0,
      g_jit_debug_mem_usage = 0,
      g_dexfile_entries = [],
      g_jit_code_entries = [],
      native_debug_interface_lock = None,
      JITCodeEntry_heap = Map.empty,
      DEXFileEntry_heap = Map.empty,
      uint8_heap = Map.empty,
      trace = []\<rparr>"

subsection \<open>Checks, the lock and the heap\<close>

definition CHECK :: "bool \<Rightarrow> unit option" where
  "CHECK c = (if c then Some () else None)"

text \<open>\<open>DCHECK\<close> evaluates and checks its condition only when the build enables it.\<close>

definition DCHECK :: "bool \<Rightarrow> bool \<Rightarrow> unit option" where
  "DCHECK kEnableDChecks c = (if kEnableDChecks \<and> \<not> c then None else Some ())"

text \<open>
  Modelled from the spec: \<open>MutexLock\<close> and \<open>Locks::native_debug_interface_lock_\<close>
  are declared in base/mutex.h, which is not among the sources. The spec takes a
  standard mutual-exclusion lock bound to the calling thread: the constructor takes the
  lock when it is free and otherwise waits; the destructor, at the end of the scope,
  gives it back.
\<close>

definition MutexLock_ctor :: "Thread \<Rightarrow> state \<Rightarrow> state option" where
  "MutexLock_ctor self s =
     (if native_debug_interface_lock s = None
      then Some (observe LockAcquired (s\<lparr>native_debug_interface_lock := Some self\<rparr>))
      else None)"

definition MutexLock_dtor :: "Thread \<Rightarrow> state \<Rightarrow> state option" where
  "MutexLock_dtor self s =
     (if native_debug_interface_lock s = Some self
      then Some ((observe LockReleased s)\<lparr>native_debug_interface_lock := None\<rparr>)
      else None)"

text \<open>
  \<open>new\<close> takes the address that the allocator returns as an argument. A
  \<open>DEXFileEntry\<close> is created with \<open>new DEXFileEntry()\<close> and so zeroed; the fields of
  a \<open>JITCodeEntry\<close> and the bytes of an array start indeterminate in the source and
  as zero here, and each of them is written before it is read.
\<close>

definition new_DEXFileEntry :: "addr \<Rightarrow> state \<Rightarrow> state" where
  "new_DEXFileEntry p s =
     s\<lparr>DEXFileEntry_heap := (DEXFileEntry_heap s)(p \<mapsto> \<lparr>dex_next = 0, dex_prev = 0, dexfile = 0\<rparr>)\<rparr>"

definition new_JITCodeEntry :: "addr \<Rightarrow> state \<Rightarrow> state" where
  "new_JITCodeEntry p s =
     s\<lparr>JITCodeEntry_heap := (JITCodeEntry_heap s)(p \<mapsto>
        \<lparr>jit_next = 0, jit_prev = 0, symfile_addr = 0, symfile_size = 0, ref_count = 0\<rparr>)\<rparr>"

definition new_uint8_array :: "addr \<Rightarrow> nat \<Rightarrow> state \<Rightarrow> state" where
  "new_uint8_array p n s = s\<lparr>uint8_heap := (uint8_heap s)(p \<mapsto> replicate n 0)\<rparr>"

text \<open>Reading and writing through a pointer needs a live object at a non-null address.\<close>

definition load_DEXFileEntry :: "addr \<Rightarrow> state \<Rightarrow> DEXFileEntry option" where
  "load_DEXFileEntry p s = (if p = 0 then None else DEXFileEntry_heap s p)"

definition store_DEXFileEntry :: "addr \<Rightarrow> (DEXFileEntry \<Rightarrow> DEXFileEntry) \<Rightarrow> state \<Rightarrow> state option" where
  "store_DEXFileEntry p f s = do {
     e \<leftarrow> load_DEXFileEntry p s;
     Some (s\<lparr>DEXFileEntry_heap := (DEXFileEntry_heap s)(p \<mapsto> f e)\<rparr>)
   }"

definition load_JITCodeEntry :: "addr \<Rightarrow> state \<Rightarrow> JITCodeEntry option" where
  "load_JITCodeEntry p s = (if p = 0 then None else JITCodeEntry_heap s p)"

definition store_JITCodeEntry :: "addr \<Rightarrow> (JITCodeEntry \<Rightarrow> JITCodeEntry) \<Rightarrow> state \<Rightarrow> state option" where
  "store_JITCodeEntry p f s = do {
     e \<leftarrow> load_JITCodeEntry p s;
     Some (s\<lparr>JITCodeEntry_heap := (JITCodeEntry_heap s)(p \<mapsto> f e)\<rparr>)
   }"

definition memcpy :: "addr \<Rightarrow> uint8_t list \<Rightarrow> nat \<Rightarrow> state \<Rightarrow> state option" where
  "memcpy dst src n s =
     (if dst = 0 then None
      else case uint8_heap s dst of
        None \<Rightarrow> None
      | Some buf \<Rightarrow>
          if n \<le> length buf \<and> n \<le> length src
          then Some (s\<lparr>uint8_heap := (uint8_heap s)(dst \<mapsto> take n src @ drop n buf)\<rparr>)
          else None)"

text \<open>\<open>delete\<close> of a null pointer does nothing; of a dangling pointer it is undefined.\<close>

definition delete_DEXFileEntry :: "addr \<Rightarrow> state \<Rightarrow> state option" where
  "delete_DEXFileEntry p s =
     (if p = 0 then Some s
      else case DEXFileEntry_heap s p of
        None \<Rightarrow> None
      | Some e \<Rightarrow> Some (s\<lparr>DEXFileEntry_heap := (DEXFileEntry_heap s)(p := None)\<rparr>))"

definition delete_JITCodeEntry :: "addr \<Rightarrow> state \<Rightarrow> state option" where
  "delete_JITCodeEntry p s =
     (if p = 0 then Some s
      else case JITCodeEntry_heap s p of
        None \<Rightarrow> None
      | Some e \<Rightarrow> Some (s\<lparr>JITCodeEntry_heap := (JITCodeEntry_heap s)(p := None)\<rparr>))"

definition delete_uint8_array :: "addr \<Rightarrow> state \<Rightarrow> state option" where
  "delete_uint8_array p s =
     (if p = 0 then Some s
      else case uint8_heap s p of
        None \<Rightarrow> None
      | Some buf \<Rightarrow> Some (s\<lparr>uint8_heap := (uint8_heap s)(p := None)\<rparr>))"

subsection \<open>Registration of dex files\<close>

definition RegisterDexFileForNative :: "Thread \<Rightarrow> addr \<Rightarrow> addr \<Rightarrow> state \<Rightarrow> state option" where
  "RegisterDexFileForNative current_thread dexfile_header new_entry s0 = do {
     s1 \<leftarrow> MutexLock_ctor current_thread s0;
     s9 \<leftarrow> (if um_count (g_dexfile_entries s1) dexfile_header = 0 then do {
        let entry = new_entry;
        let s2 = new_DEXFileEntry entry s1;
        CHECK (entry \<noteq> 0);
        s3 \<leftarrow> store_DEXFileEntry entry (\<lambda>e. e\<lparr>dexfile := dexfile_header\<rparr>) s2;
        s4 \<leftarrow> store_DEXFileEntry entry (\<lambda>e. e\<lparr>dex_prev := 0\<rparr>) s3;
        s5 \<leftarrow> store_DEXFileEntry entry (\<lambda>e. e\<lparr>dex_next := art_debug_dexfiles s4\<rparr>) s4;
        e \<leftarrow> load_DEXFileEntry entry s5;
        s6 \<leftarrow> (if dex_next e \<noteq> 0
               then store_DEXFileEntry (dex_next e) (\<lambda>n. n\<lparr>dex_prev := entry\<rparr>) s5
               else Some s5);
        let s7 = s6\<lparr>art_debug_dexfiles := entry\<rparr>;
        let s8 = s7\<lparr>art_debug_dexfiles_timestamp := art_debug_dexfiles_timestamp s7 + 1\<rparr>;
        Some (s8\<lparr>g_dexfile_entries := um_emplace dexfile_header entry (g_dexfile_entries s8)\<rparr>)
      } else Some s1);
     MutexLock_dtor current_thread s9
   }"

definition DeregisterDexFileForNative :: "Thread \<Rightarrow> addr \<Rightarrow> state \<Rightarrow> state option" where
  "DeregisterDexFileForNative current_thread dexfile_header s0 = do {
     s1 \<leftarrow> MutexLock_ctor current_thread s0;
     s7 \<leftarrow> (case um_find (g_dexfile_entries s1) dexfile_header of
        None \<Rightarrow> Some s1
      | Some entry \<Rightarrow> do {
          e \<leftarrow> load_DEXFileEntry entry s1;
          s2 \<leftarrow> (if dex_prev e \<noteq> 0
                 then store_DEXFileEntry (dex_prev e) (\<lambda>p. p\<lparr>dex_next := dex_next e\<rparr>) s1
                 else Some (s1\<lparr>art_debug_dexfiles := dex_next e\<rparr>));
          e \<leftarrow> load_DEXFileEntry entry s2;
          s3 \<leftarrow> (if dex_next e \<noteq> 0
                 then store_DEXFileEntry (dex_next e) (\<lambda>n. n\<lparr>dex_prev := dex_prev e\<rparr>) s2
                 else Some s2);
          let s4 = s3\<lparr>art_debug_dexfiles_timestamp := art_debug_dexfiles_timestamp s3 + 1\<rparr>;
          s5 \<leftarrow> delete_DEXFileEntry entry s4;
          Some (s5\<lparr>g_dexfile_entries := um_erase dexfile_header (g_dexfile_entries s5)\<rparr>)
        });
     MutexLock_dtor current_thread s7
   }"

subsection \<open>Code entries\<close>

text \<open>
  \<open>symfile\<close> is the caller's \<open>std::vector<uint8_t>\<close>, passed by value here; \<open>new_array\<close>
  and \<open>new_entry\<close> are the addresses returned by \<open>new uint8_t[symfile.size()]\<close> and
  \<open>new JITCodeEntry\<close>.
\<close>

definition CreateJITCodeEntry ::
    "bool \<Rightarrow> uint8_t list \<Rightarrow> addr \<Rightarrow> addr \<Rightarrow> state \<Rightarrow> (addr \<times> state) option" where
  "CreateJITCodeEntry kEnableDChecks symfile new_array new_entry s0 = do {
     DCHECK kEnableDChecks (length symfile \<noteq> 0);
     let symfile_copy = new_array;
     let s1 = new_uint8_array symfile_copy (length symfile) s0;
     CHECK (symfile_copy \<noteq> 0);
     s2 \<leftarrow> memcpy symfile_copy symfile (length symfile) s1;
     let entry = new_entry;
     let s3 = new_JITCodeEntry entry s2;
     CHECK (entry \<noteq> 0);
     s4 \<leftarrow> store_JITCodeEntry entry (\<lambda>e. e\<lparr>symfile_addr := symfile_copy\<rparr>) s3;
     s5 \<leftarrow> store_JITCodeEntry entry (\<lambda>e. e\<lparr>symfile_size := of_nat (length symfile)\<rparr>) s4;
     s6 \<leftarrow> store_JITCodeEntry entry (\<lambda>e. e\<lparr>jit_prev := 0\<rparr>) s5;
     s7 \<leftarrow> store_JITCodeEntry entry (\<lambda>e. e\<lparr>ref_count := 0\<rparr>) s6;
     s8 \<leftarrow> store_JITCodeEntry entry
             (\<lambda>e. e\<lparr>jit_next := first_entry (jit_debug_descriptor s7)\<rparr>) s7;
     e \<leftarrow> load_JITCodeEntry entry s8;
     s9 \<leftarrow> (if jit_next e \<noteq> 0
            then store_JITCodeEntry (jit_next e) (\<lambda>n. n\<lparr>jit_prev := entry\<rparr>) s8
            else Some s8);
     e \<leftarrow> load_JITCodeEntry entry s9;
     let s10 = s9\<lparr>g_jit_debug_mem_usage :=
                   g_jit_debug_mem_usage s9 + (sizeof_JITCodeEntry + symfile_size e)\<rparr>;
     let s11 = s10\<lparr>jit_debug_descriptor := (jit_debug_descriptor s10)\<lparr>first_entry := entry\<rparr>\<rparr>;
     let s12 = s11\<lparr>jit_debug_descriptor := (jit_debug_descriptor s11)\<lparr>relevant_entry := entry\<rparr>\<rparr>;
     let s13 = s12\<lparr>jit_debug_descriptor :=
                    (jit_debug_descriptor s12)\<lparr>action_flag := JIT_REGISTER_FN\<rparr>\<rparr>;
     let s14 = s13\<lparr>jit_debug_descriptor_timestamp := jit_debug_descriptor_timestamp s13 + 1\<rparr>;
     let s15 = jit_debug_register_code_ptr s14;
     Some (entry, s15)
   }"

definition DeleteJITCodeEntry :: "addr \<Rightarrow> state \<Rightarrow> state option" where
  "DeleteJITCodeEntry entry s0 = do {
     e \<leftarrow> load_JITCodeEntry entry s0;
     s1 \<leftarrow> (if jit_prev e \<noteq> 0
            then store_JITCodeEntry (jit_prev e) (\<lambda>p. p\<lparr>jit_next := jit_next e\<rparr>) s0
            else Some (s0\<lparr>jit_debug_descriptor :=
                            (jit_debug_descriptor s0)\<lparr>first_entry := jit_next e\<rparr>\<rparr>));
     e \<leftarrow> load_JITCodeEntry entry s1;
     s2 \<leftarrow> (if jit_next e \<noteq> 0
            then store_JITCodeEntry (jit_next e) (\<lambda>n. n\<lparr>jit_prev := jit_prev e\<rparr>) s1
            else Some s1);
     e \<leftarrow> load_JITCodeEntry entry s2;
     let s3 = s2\<lparr>g_jit_debug_mem_usage :=
                  g_jit_debug_mem_usage s2 - (sizeof_JITCodeEntry + symfile_size e)\<rparr>;
     let s4 = s3\<lparr>jit_debug_descriptor := (jit_debug_descriptor s3)\<lparr>relevant_entry := entry\<rparr>\<rparr>;
     let s5 = s4\<lparr>jit_debug_descriptor :=
                  (jit_debug_descriptor s4)\<lparr>action_flag := JIT_UNREGISTER_FN\<rparr>\<rparr>;
     let s6 = s5\<lparr>jit_debug_descriptor_timestamp := jit_debug_descriptor_timestamp s5 + 1\<rparr>;
     let s7 = jit_debug_register_code_ptr s6;
     e \<leftarrow> load_JITCodeEntry entry s7;
     s8 \<leftarrow> delete_uint8_array (symfile_addr e) s7;
     delete_JITCodeEntry entry s8
   }"

subsection \<open>Reference counts by code address\<close>

definition IncrementJITCodeEntryRefcount :: "bool \<Rightarrow> addr \<Rightarrow> addr \<Rightarrow> state \<Rightarrow> state option" where
  "IncrementJITCodeEntryRefcount kEnableDChecks entry code_address s0 = do {
     DCHECK kEnableDChecks (entry \<noteq> 0);
     DCHECK kEnableDChecks (um_count (g_jit_code_entries s0) code_address = 0);
     s1 \<leftarrow> store_JITCodeEntry entry (\<lambda>e. e\<lparr>ref_count := ref_count e + 1\<rparr>) s0;
     Some (s1\<lparr>g_jit_code_entries := um_emplace code_address entry (g_jit_code_entries s1)\<rparr>)
   }"

text \<open>The second \<open>DCHECK\<close> reads the map with \<open>operator[]\<close>, which may insert; a build
  without \<open>DCHECK\<close>s does not evaluate it.\<close>

definition DecrementJITCodeEntryRefcount :: "bool \<Rightarrow> addr \<Rightarrow> addr \<Rightarrow> state \<Rightarrow> state option" where
  "DecrementJITCodeEntryRefcount kEnableDChecks entry code_address s0 = do {
     DCHECK kEnableDChecks (entry \<noteq> 0);
     s1 \<leftarrow> (if kEnableDChecks
            then (case um_subscript code_address (g_jit_code_entries s0) of
                    (v, m) \<Rightarrow> do { CHECK (v = entry); Some (s0\<lparr>g_jit_code_entries := m\<rparr>) })
            else Some s0);
     s2 \<leftarrow> store_JITCodeEntry entry (\<lambda>e. e\<lparr>ref_count := ref_count e - 1\<rparr>) s1;
     e \<leftarrow> load_JITCodeEntry entry s2;
     s3 \<leftarrow> (if ref_count e = 0 then DeleteJITCodeEntry entry s2 else Some s2);
     Some (s3\<lparr>g_jit_code_entries := um_erase code_address (g_jit_code_entries s3)\<rparr>)
   }"

definition GetJITCodeEntry :: "addr \<Rightarrow> state \<Rightarrow> addr" where
  "GetJITCodeEntry code_address s =
     (case um_find (g_jit_code_entries s) code_address of None \<Rightarrow> 0 | Some entry \<Rightarrow> entry)"

definition GetJITCodeEntryMemUsage :: "state \<Rightarrow> size_t" where
  "GetJITCodeEntryMemUsage s =
     g_jit_debug_mem_usage s + of_nat (um_size (g_jit_code_entries s)) * 2 * sizeof_void_ptr"

section \<open>The two lists as the debugger walks them\<close>

text \<open>
  A walk starts at an address and follows one link field until it reaches the null
  pointer, collecting the addresses it visits; it gives up after \<open>n\<close> entries or at
  an entry that is not live. The link field is given as a partial map from the address
  of a live entry to the value of the field.
\<close>

fun walk :: "(addr \<rightharpoonup> addr) \<Rightarrow> nat \<Rightarrow> addr \<Rightarrow> addr list option" where
  "walk lk 0 p = (if p = 0 then Some [] else None)"
| "walk lk (Suc n) p =
     (if p = 0 then Some []
      else case lk p of None \<Rightarrow> None | Some q \<Rightarrow> map_option ((#) p) (walk lk n q))"

text \<open>The map that a link field \<open>f\<close> gives on a heap \<open>h\<close> of entries.\<close>

definition field_map :: "('e \<Rightarrow> addr) \<Rightarrow> (addr \<rightharpoonup> 'e) \<Rightarrow> addr \<rightharpoonup> addr" where
  "field_map f h p = map_option f (h p)"

text \<open>
  \<open>dlist nx pv b p es\<close>: starting at \<open>p\<close>, the entries \<open>es\<close> are linked in this
  order by \<open>nx\<close> up to the null pointer, the \<open>pv\<close> link of each entry is the entry
  before it, and that of the first one is \<open>b\<close>.
\<close>

fun dlist :: "(addr \<rightharpoonup> addr) \<Rightarrow> (addr \<rightharpoonup> addr) \<Rightarrow> addr \<Rightarrow> addr \<Rightarrow> addr list \<Rightarrow> bool" where
  "dlist nx pv b p [] = (p = 0)"
| "dlist nx pv b p (a # as) =
     (p = a \<and> a \<noteq> 0 \<and> pv a = Some b \<and>
      (case nx a of None \<Rightarrow> False | Some q \<Rightarrow> dlist nx pv a q as))"

definition tail_of :: "addr list \<Rightarrow> addr" where
  "tail_of es = (case es of [] \<Rightarrow> 0 | a # as \<Rightarrow> last es)"

definition code_list :: "'a memory_scheme \<Rightarrow> addr list \<Rightarrow> bool" where
  "code_list s es =
     dlist (field_map jit_next (JITCodeEntry_heap s)) (field_map jit_prev (JITCodeEntry_heap s))
       0 (first_entry (jit_debug_descriptor s)) es"

definition file_list :: "'a memory_scheme \<Rightarrow> addr list \<Rightarrow> bool" where
  "file_list s fs =
     dlist (field_map dex_next (DEXFileEntry_heap s)) (field_map dex_prev (DEXFileEntry_heap s))
       0 (art_debug_dexfiles s) fs"

text \<open>The blob of a live code entry, the bytes that the accumulator counts for it,
  whether the blob is a live array of the size that is counted, and the entries of a
  list of file entries that stand for a given file.\<close>

definition blob_of :: "(addr \<rightharpoonup> JITCodeEntry) \<Rightarrow> addr \<Rightarrow> addr" where
  "blob_of h a = (case h a of None \<Rightarrow> 0 | Some e \<Rightarrow> symfile_addr e)"

definition accounted :: "(addr \<rightharpoonup> JITCodeEntry) \<Rightarrow> addr \<Rightarrow> size_t" where
  "accounted h a = (case h a of None \<Rightarrow> 0 | Some e \<Rightarrow> sizeof_JITCodeEntry + symfile_size e)"

definition has_blob :: "(addr \<rightharpoonup> uint8_t list) \<Rightarrow> (addr \<rightharpoonup> JITCodeEntry) \<Rightarrow> addr \<Rightarrow> bool" where
  "has_blob u h a =
     (case u (blob_of h a) of None \<Rightarrow> False
      | Some bytes \<Rightarrow> accounted h a = sizeof_JITCodeEntry + of_nat (length bytes))"

definition entries_for :: "(addr \<rightharpoonup> DEXFileEntry) \<Rightarrow> addr \<Rightarrow> addr list \<Rightarrow> addr list" where
  "entries_for h k fs = filter (\<lambda>a. map_option dexfile (h a) = Some k) fs"

text \<open>
  The invariant of the code side, for the list \<open>es\<close> of live code entries: they form
  the doubly linked list that starts at the descriptor's \<open>first_entry_\<close>, they are all
  the live \<open>JITCodeEntry\<close> objects, each owns a live array of its own whose length is
  its \<open>symfile_size_\<close>, the accumulator is the sum of what is counted for each, and
  the keys of the code-address map are unique.
\<close>

definition code_entries_ok :: "'a memory_scheme \<Rightarrow> addr list \<Rightarrow> bool" where
  "code_entries_ok s es \<longleftrightarrow>
     code_list s es \<and>
     dom (JITCodeEntry_heap s) = set es \<and>
     distinct (map (blob_of (JITCodeEntry_heap s)) es) \<and>
     (\<forall>a\<in>set es. blob_of (JITCodeEntry_heap s) a \<noteq> 0 \<and>
        has_blob (uint8_heap s) (JITCodeEntry_heap s) a) \<and>
     g_jit_debug_mem_usage s = sum_list (map (accounted (JITCodeEntry_heap s)) es) \<and>
     distinct (map fst (g_jit_code_entries s))"

text \<open>
  The invariant of the file side, for the list \<open>fs\<close> of live file entries: they form
  the doubly linked list that starts at \<open>__art_debug_dexfiles\<close>, they are all the live
  \<open>DEXFileEntry\<close> objects, and the map \<open>g_dexfile_entries\<close> has exactly one key for
  each of them, the \<open>dexfile_\<close> that it holds.
\<close>

definition file_entries_ok :: "'a memory_scheme \<Rightarrow> addr list \<Rightarrow> bool" where
  "file_entries_ok s fs \<longleftrightarrow>
     file_list s fs \<and>
     dom (DEXFileEntry_heap s) = set fs \<and>
     map snd (g_dexfile_entries s) = fs \<and>
     distinct (map fst (g_dexfile_entries s)) \<and>
     (\<forall>kv\<in>set (g_dexfile_entries s).
        map_option dexfile (DEXFileEntry_heap s (snd kv)) = Some (fst kv))"

section \<open>Sequences of calls\<close>

text \<open>
  The calls that the rest of the runtime makes, with the addresses that the allocator
  returns to them. The allocator returns an address at which no object of that kind
  is live; a sequence of calls in which it would not is not a run of the program.
  A caller may also take and give back the lock itself, around its calls of the
  functions that do not.
\<close>

datatype api_call =
    RegisterFile Thread addr addr
  | DeregisterFile Thread addr
  | CreateCodeEntry "uint8_t list" addr addr
  | DeleteCodeEntry addr
  | Attach addr addr
  | Detach addr addr
  | CallerLock Thread
  | CallerUnlock Thread

fun call :: "bool \<Rightarrow> api_call \<Rightarrow> state \<Rightarrow> state option" where
  "call k (RegisterFile t a new_entry) s =
     (if DEXFileEntry_heap s new_entry = None
      then RegisterDexFileForNative t a new_entry s else None)"
| "call k (DeregisterFile t a) s = DeregisterDexFileForNative t a s"
| "call k (CreateCodeEntry symfile new_array new_entry) s =
     (if uint8_heap s new_array = None \<and> JITCodeEntry_heap s new_entry = None
      then map_option snd (CreateJITCodeEntry k symfile new_array new_entry s) else None)"
| "call k (DeleteCodeEntry entry) s = DeleteJITCodeEntry entry s"
| "call k (Attach entry code_address) s = IncrementJITCodeEntryRefcount k entry code_address s"
| "call k (Detach entry code_address) s = DecrementJITCodeEntryRefcount k entry code_address s"
| "call k (CallerLock t) s = MutexLock_ctor t s"
| "call k (CallerUnlock t) s = MutexLock_dtor t s"

fun run :: "bool \<Rightarrow> api_call list \<Rightarrow> state \<Rightarrow> state option" where
  "run k [] s = Some s"
| "run k (c # cs) s = (case call k c s of None \<Rightarrow> None | Some s' \<Rightarrow> run k cs s')"

text \<open>Attaching and detaching a list of code addresses, one after the other.\<close>

fun attach_all :: "bool \<Rightarrow> addr \<Rightarrow> addr list \<Rightarrow> state \<Rightarrow> state option" where
  "attach_all k entry [] s = Some s"
| "attach_all k entry (a # as) s =
     (case IncrementJITCodeEntryRefcount k entry a s of
        None \<Rightarrow> None
      | Some s' \<Rightarrow> attach_all k entry as s')"

fun detach_all :: "bool \<Rightarrow> addr \<Rightarrow> addr list \<Rightarrow> state \<Rightarrow> state option" where
  "detach_all k entry [] s = Some s"
| "detach_all k entry (a # as) s =
     (case DecrementJITCodeEntryRefcount k entry a s of
        None \<Rightarrow> None
      | Some s' \<Rightarrow> detach_all k entry as s')"

text \<open>
  The file addresses that a sequence of calls leaves registered, newest first, when it
  starts with the addresses \<open>ks\<close>; the numbers of registrations and deregistrations in
  it; and the sequences in which every registration is of an address that is not
  registered and every deregistration of one that is.
\<close>

fun registered :: "addr list \<Rightarrow> api_call list \<Rightarrow> addr list" where
  "registered ks [] = ks"
| "registered ks (RegisterFile t a new_entry # cs) =
     registered (if a \<in> set ks then ks else a # ks) cs"
| "registered ks (DeregisterFile t a # cs) = registered (removeAll a ks) cs"
| "registered ks (c # cs) = registered ks cs"

fun registrations :: "api_call list \<Rightarrow> nat" where
  "registrations [] = 0"
| "registrations (RegisterFile t a new_entry # cs) = Suc (registrations cs)"
| "registrations (c # cs) = registrations cs"

fun deregistrations :: "api_call list \<Rightarrow> nat" where
  "deregistrations [] = 0"
| "deregistrations (DeregisterFile t a # cs) = Suc (deregistrations cs)"
| "deregistrations (c # cs) = deregistrations cs"

fun distinct_addresses :: "addr list \<Rightarrow> api_call list \<Rightarrow> bool" where
  "distinct_addresses ks [] = True"
| "distinct_addresses ks (RegisterFile t a new_entry # cs) =
     (a \<notin> set ks \<and> distinct_addresses (a # ks) cs)"
| "distinct_addresses ks (DeregisterFile t a # cs) =
     (a \<in> set ks \<and> distinct_addresses (removeAll a ks) cs)"
| "distinct_addresses ks (c # cs) = distinct_addresses ks cs"

text \<open>
  A run in which the 32-bit reference count wraps around: one code entry, 4294967297
  distinct code addresses attached to it, and the first of them detached.
\<close>

definition many_addresses :: "addr list" where
  "many_addresses = map of_nat [1..<4294967298]"

definition overflow_run :: "state option" where
  "overflow_run = do {
     (entry, s1) \<leftarrow> CreateJITCodeEntry True [127, 69, 76, 70] 1280 256 initial_state;
     s2 \<leftarrow> attach_all True entry many_addresses s1;
     DecrementJITCodeEntryRefcount True entry 1 s2
   }"

text \<open>
  What a debugger, or any other reader of the exported symbols, can tell apart: two
  states have the same view when they agree on everything but the reference counts of
  the code entries and the map \<open>g_jit_code_entries\<close>, which is private to the
  runtime. The trace is part of the view, so the same view means that no notification
  was sent in between.
\<close>

definition debugger_view_unchanged :: "state \<Rightarrow> state \<Rightarrow> bool" where
  "debugger_view_unchanged s s' \<longleftrightarrow>
     jit_debug_descriptor s' = jit_debug_descriptor s \<and>
     jit_debug_descriptor_timestamp s' = jit_debug_descriptor_timestamp s \<and>
     art_debug_dexfiles s' = art_debug_dexfiles s \<and>
     art_debug_dexfiles_timestamp s' = art_debug_dexfiles_timestamp s \<and>
     DEXFileEntry_heap s' = DEXFileEntry_heap s \<and>
     g_dexfile_entries s' = g_dexfile_entries s \<and>
     uint8_heap s' = uint8_heap s \<and>
     g_jit_debug_mem_usage s' = g_jit_debug_mem_usage s \<and>
     native_debug_interface_lock s' = native_debug_interface_lock s \<and>
     trace s' = trace s \<and>
     (\<forall>p. map_option (ref_count_update (\<lambda>r. 0)) (JITCodeEntry_heap s' p) =
          map_option (ref_count_update (\<lambda>r. 0)) (JITCodeEntry_heap s p))"

text \<open>
  The calls that work on the list of dex files, with the thread that makes them, and
  the calls that work on the list of code entries.
\<close>

fun file_call :: "api_call \<Rightarrow> Thread option" where
  "file_call (RegisterFile t a new_entry) = Some t"
| "file_call (DeregisterFile t a) = Some t"
| "file_call c = None"

fun code_call :: "api_call \<Rightarrow> bool" where
  "code_call (CreateCodeEntry symfile new_array new_entry) = True"
| "code_call (DeleteCodeEntry entry) = True"
| "code_call (Attach entry code_address) = True"
| "code_call (Detach entry code_address) = True"
| "code_call c = False"

text \<open>
  Some states to evaluate the functions on: one code entry with a blob of four bytes,
  the same entry attached to one and to two code addresses, and three registered dex
  files; and the creation of a code entry by a caller that does not hold the lock.
\<close>

definition example_created :: state where
  "example_created =
     snd (the (CreateJITCodeEntry True [127, 69, 76, 70] 1280 256 initial_state))"

definition example_attached :: state where
  "example_attached = the (IncrementJITCodeEntryRefcount True 256 4096 example_created)"

definition example_attached_twice :: state where
  "example_attached_twice = the (IncrementJITCodeEntryRefcount True 256 8192 example_attached)"

definition example_files :: state where
  "example_files =
     the (run True [RegisterFile 1 160 16, RegisterFile 1 176 32, RegisterFile 1 192 48]
       initial_state)"

definition create_without_lock :: "(addr \<times> state) option" where
  "create_without_lock = CreateJITCodeEntry True [127, 69, 76, 70] 1280 256 initial_state"

text \<open>
  The lists that a sequence of list operations has to produce. The file list is
  followed as pairs of a file address and the entry allocated for it, the list of code
  entries as pairs of an entry and its blob; both are newest first. A registration or a
  creation puts its pair in front, a deregistration or a deletion takes the pair of its
  address or entry out, wherever it stands. \<open>list_calls\<close> are the sequences of these
  four operations in which every registration is of a file address that is not
  registered, every deregistration of one that is, every deletion of a code entry that
  is in the list, and the allocator returns non-null addresses at which nothing is
  live.
\<close>

fun file_entries_after :: "(addr \<times> addr) list \<Rightarrow> api_call list \<Rightarrow> (addr \<times> addr) list" where
  "file_entries_after fs [] = fs"
| "file_entries_after fs (RegisterFile t a new_entry # cs) =
     file_entries_after ((a, new_entry) # fs) cs"
| "file_entries_after fs (DeregisterFile t a # cs) =
     file_entries_after (filter (\<lambda>f. fst f \<noteq> a) fs) cs"
| "file_entries_after fs (c # cs) = file_entries_after fs cs"

fun code_entries_after :: "(addr \<times> addr) list \<Rightarrow> api_call list \<Rightarrow> (addr \<times> addr) list" where
  "code_entries_after es [] = es"
| "code_entries_after es (CreateCodeEntry symfile new_array new_entry # cs) =
     code_entries_after ((new_entry, new_array) # es) cs"
| "code_entries_after es (DeleteCodeEntry entry # cs) =
     code_entries_after (filter (\<lambda>e. fst e \<noteq> entry) es) cs"
| "code_entries_after es (c # cs) = code_entries_after es cs"

fun list_calls :: "(addr \<times> addr) list \<Rightarrow> (addr \<times> addr) list \<Rightarrow> api_call list \<Rightarrow> bool" where
  "list_calls fs es [] = True"
| "list_calls fs es (RegisterFile t a new_entry # cs) =
     (a \<notin> fst ` set fs \<and> new_entry \<noteq> 0 \<and> new_entry \<notin> snd ` set fs \<and>
      list_calls ((a, new_entry) # fs) es cs)"
| "list_calls fs es (DeregisterFile t a # cs) =
     (a \<in> fst ` set fs \<and> list_calls (filter (\<lambda>f. fst f \<noteq> a) fs) es cs)"
| "list_calls fs es (CreateCodeEntry symfile new_array new_entry # cs) =
     (symfile \<noteq> [] \<and> new_array \<noteq> 0 \<and> new_entry \<noteq> 0 \<and>
      new_entry \<notin> fst ` set es \<and> new_array \<notin> snd ` set es \<and>
      list_calls fs ((new_entry, new_array) # es) cs)"
| "list_calls fs es (DeleteCodeEntry entry # cs) =
     (entry \<in> fst ` set es \<and> list_calls fs (filter (\<lambda>e. fst e \<noteq> entry) es) cs)"
| "list_calls fs es (c # cs) = False"

text \<open>The numbers of creations and deletions of code entries in a sequence of calls.\<close>

fun creations :: "api_call list \<Rightarrow> nat" where
  "creations [] = 0"
| "creations (CreateCodeEntry symfile new_array new_entry # cs) = Suc (creations cs)"
| "creations (c # cs) = creations cs"

fun deletions :: "api_call list \<Rightarrow> nat" where
  "deletions [] = 0"
| "deletions (DeleteCodeEntry entry # cs) = Suc (deletions cs)"
| "deletions (c # cs) = deletions cs"

text \<open>
  \<open>lists_are s es fs\<close>: in the state \<open>s\<close> the walk from \<open>first_entry_\<close> along
  \<open>next_\<close> visits the code entries \<open>es\<close> and the walk from the last of them along
  \<open>prev_\<close> visits them in reverse order, they are distinct and they are exactly the
  live \<open>JITCodeEntry\<close> objects; and the same for the file entries \<open>fs\<close>, from
  \<open>__art_debug_dexfiles\<close>.
\<close>

definition lists_are :: "'a memory_scheme \<Rightarrow> addr list \<Rightarrow> addr list \<Rightarrow> bool" where
  "lists_are s es fs \<longleftrightarrow>
     walk (field_map jit_next (JITCodeEntry_heap s)) (length es)
       (first_entry (jit_debug_descriptor s)) = Some es \<and>
     walk (field_map jit_prev (JITCodeEntry_heap s)) (length es) (tail_of es) = Some (rev es) \<and>
     distinct es \<and> set es = dom (JITCodeEntry_heap s) \<and>
     walk (field_map dex_next (DEXFileEntry_heap s)) (length fs) (art_debug_dexfiles s) = Some fs \<and>
     walk (field_map dex_prev (DEXFileEntry_heap s)) (length fs) (tail_of fs) = Some (rev fs) \<and>
     distinct fs \<and> set fs = dom (DEXFileEntry_heap s)"

text \<open>
  A state agrees with the pairs \<open>fs\<close> and \<open>es\<close> when both invariants hold for their
  entries, the blobs of the code entries are the ones paired with them and are all the
  live arrays, the map of files is \<open>fs\<close> itself, and the lock is free.
\<close>

definition tracks :: "state \<Rightarrow> (addr \<times> addr) list \<Rightarrow> (addr \<times> addr) list \<Rightarrow> bool" where
  "tracks s fs es \<longleftrightarrow>
     code_entries_ok s (map fst es) \<and>
     (\<forall>e\<in>set es. blob_of (JITCodeEntry_heap s) (fst e) = snd e) \<and>
     dom (uint8_heap s) = snd ` set es \<and>
     file_entries_ok s (map snd fs) \<and>
     g_dexfile_entries s = fs \<and>
     native_debug_interface_lock s = None"

section \<open>Doubly linked lists\<close>

lemma dlist_cong:
  "\<forall>a\<in>set es. nx a = nx' a \<and> pv a = pv' a \<Longrightarrow> dlist nx pv b p es = dlist nx' pv' b p es"
  by (induction es arbitrary: b p) (auto split: option.splits)

lemma dlist_nonzero: "dlist nx pv b p es \<Longrightarrow> 0 \<notin> set es"
  by (induction es arbitrary: b p) (auto split: option.splits)

lemma dlist_live:
  "dlist nx pv b p es \<Longrightarrow> a \<in> set es \<Longrightarrow> (\<exists>q. nx a = Some q) \<and> (\<exists>q. pv a = Some q)"
proof (induction es arbitrary: b p)
  case Nil
  then show ?case by simp
next
  case (Cons x xs)
  then obtain q where q: "nx x = Some q" "pv x = Some b" "dlist nx pv x q xs"
    by (auto split: option.splits)
  show ?case
  proof (cases "a = x")
    case True
    with q show ?thesis by simp
  next
    case False
    with Cons.prems(2) have "a \<in> set xs" by simp
    with q(3) show ?thesis by (rule Cons.IH)
  qed
qed

lemma dlist_head: "dlist nx pv b p es \<Longrightarrow> p = (case es of [] \<Rightarrow> 0 | a # as \<Rightarrow> a)"
  by (cases es) auto

lemma dlist_walk:
  "dlist nx pv b p es \<Longrightarrow> length es \<le> n \<Longrightarrow> walk nx n p = Some es"
proof (induction es arbitrary: b p n)
  case Nil
  then show ?case by (cases n) auto
next
  case (Cons a as)
  then obtain m where "n = Suc m" by (cases n) auto
  with Cons show ?case by (auto split: option.splits)
qed

lemma dlist_suffix:
  "dlist nx pv b p (xs @ a # ys) \<Longrightarrow> \<exists>c. dlist nx pv c a (a # ys)"
proof (induction xs arbitrary: b p)
  case Nil
  then have "p = a" by simp
  with Nil show ?case by auto
next
  case (Cons x xs)
  then obtain q where "dlist nx pv x q (xs @ a # ys)"
    by (auto split: option.splits)
  then show ?case by (rule Cons.IH)
qed

text \<open>An entry does not come twice: the walk from it would be longer than itself.\<close>

lemma dlist_head_notin_tail:
  assumes "dlist nx pv b p (a # as)"
  shows "a \<notin> set as"
proof
  assume "a \<in> set as"
  then obtain xs ys where as: "as = xs @ a # ys"
    by (auto simp: in_set_conv_decomp)
  with assms have "dlist nx pv b p ((a # xs) @ a # ys)" by simp
  then obtain c where "dlist nx pv c a (a # ys)"
    using dlist_suffix by blast
  then have "walk nx (length (a # as)) a = Some (a # ys)"
    by (rule dlist_walk) (simp add: as)
  moreover from assms have "walk nx (length (a # as)) a = Some (a # as)"
    using dlist_walk[OF assms order_refl] by auto
  ultimately show False by (simp add: as)
qed

lemma dlist_distinct: "dlist nx pv b p es \<Longrightarrow> distinct es"
proof (induction es arbitrary: b p)
  case Nil
  then show ?case by simp
next
  case (Cons a as)
  from Cons.prems have "a \<notin> set as" by (rule dlist_head_notin_tail)
  moreover from Cons have "distinct as" by (auto split: option.splits)
  ultimately show ?case by simp
qed

lemma dlist_walk_back_gen:
  "dlist nx pv b p es \<Longrightarrow> es \<noteq> [] \<Longrightarrow>
   walk pv (length es + n) (last es) = map_option (\<lambda>r. rev es @ r) (walk pv n b)"
proof (induction es arbitrary: b p n)
  case Nil
  then show ?case by simp
next
  case (Cons a as)
  show ?case
  proof (cases as)
    case Nil
    with Cons.prems show ?thesis by (auto simp: option.map_comp comp_def)
  next
    case (Cons c cs)
    with Cons.prems obtain q where q: "nx a = Some q" "dlist nx pv a q as" "a \<noteq> 0" "pv a = Some b"
      by (auto split: option.splits)
    have nonempty: "as \<noteq> []" using Cons by simp
    have step: "walk pv (Suc n) a = map_option ((#) a) (walk pv n b)"
      using q by simp
    have "walk pv (length (a # as) + n) (last (a # as)) = walk pv (length as + Suc n) (last as)"
      using nonempty by simp
    also have "\<dots> = map_option (\<lambda>r. rev as @ r) (walk pv (Suc n) a)"
      by (rule Cons.IH[OF q(2) nonempty])
    also have "\<dots> = map_option (\<lambda>r. rev (a # as) @ r) (walk pv n b)"
      unfolding step by (simp add: option.map_comp comp_def)
    finally show ?thesis .
  qed
qed

lemma dlist_walk_back:
  assumes "dlist nx pv 0 p es" "length es \<le> n"
  shows "walk pv n (tail_of es) = Some (rev es)"
proof (cases es)
  case Nil
  then show ?thesis by (cases n) (auto simp: tail_of_def)
next
  case (Cons a as)
  from assms(2) obtain m where n: "n = length es + m"
    using le_Suc_ex by blast
  have "walk pv m 0 = Some []" by (cases m) auto
  with dlist_walk_back_gen[OF assms(1), of m] Cons n show ?thesis
    by (simp add: tail_of_def)
qed

text \<open>Linking a new entry in front of the head.\<close>

lemma dlist_push:
  assumes "dlist nx pv 0 h es" "new \<noteq> 0" "new \<notin> set es"
  shows "dlist (nx(new \<mapsto> h))
           (if h \<noteq> 0 then (pv(new \<mapsto> 0))(h \<mapsto> new) else pv(new \<mapsto> 0)) 0 new (new # es)"
proof (cases es)
  case Nil
  with assms show ?thesis by auto
next
  case (Cons a as)
  with assms obtain q where q: "h = a" "a \<noteq> 0" "nx a = Some q" "dlist nx pv a q as"
    by (auto split: option.splits)
  from assms(1) Cons have "a \<notin> set as" using dlist_head_notin_tail by blast
  with assms(3) Cons
  have "dlist (nx(new \<mapsto> h)) ((pv(new \<mapsto> 0))(h \<mapsto> new)) a q as = dlist nx pv a q as"
    by (intro dlist_cong) (auto simp: q)
  with q assms Cons show ?thesis by auto
qed

lemma dlist_successor:
  assumes "dlist nx pv b h (xs @ a # ys)" "nx a = Some n"
  shows "n = (case ys of [] \<Rightarrow> 0 | y # zs \<Rightarrow> y)"
proof -
  from assms(1) obtain c where "dlist nx pv c a (a # ys)"
    using dlist_suffix by blast
  with assms(2) have "dlist nx pv a n ys" by simp
  then show ?thesis by (cases ys) auto
qed

text \<open>
  Taking the entry \<open>a\<close> out of any position: its predecessor, if there is one, gets
  its successor as \<open>next\<close>; its successor, if there is one, gets its predecessor as
  \<open>prev\<close>; the head moves to the successor when \<open>a\<close> was the first entry.
\<close>

lemma dlist_splice:
  assumes "dlist nx pv b h (xs @ a # ys)" "b \<notin> set (xs @ a # ys)"
    and "nx a = Some n" "pv a = Some p"
    and nx': "nx' = (if p \<noteq> 0 then nx(p \<mapsto> n) else nx)(a := None)"
    and pv': "pv' = (if n \<noteq> 0 then pv(n \<mapsto> p) else pv)(a := None)"
  shows "p = (if xs = [] then b else last xs) \<and>
         dlist nx' pv' b (if xs = [] then n else h) (xs @ ys)"
  using assms(1,2)
proof (induction xs arbitrary: b h)
  case Nil
  with assms(3,4) have a: "h = a" "a \<noteq> 0" "p = b" "dlist nx pv a n ys"
    by (auto split: option.splits)
  from Nil.prems(1) have a_ys: "a \<notin> set ys"
    by (simp only: append_Nil) (rule dlist_head_notin_tail)
  have "dlist nx' pv' b n ys"
  proof (cases ys)
    case Nil
    with a show ?thesis by simp
  next
    case (Cons y zs)
    with a obtain q where y: "n = y" "y \<noteq> 0" "nx y = Some q" "dlist nx pv y q zs"
      by (auto split: option.splits)
    from a(4) Cons y(1) have y_zs: "y \<notin> set zs"
      using dlist_head_notin_tail by blast
    have "dlist nx' pv' y q zs = dlist nx pv y q zs"
      using a_ys y_zs Nil.prems(2) Cons a(3) y(1)
      by (intro dlist_cong) (auto simp: nx' pv')
    with y a a_ys Cons Nil.prems(2) show ?thesis
      by (auto simp: nx' pv')
  qed
  with a(3) show ?case by simp
next
  case (Cons x xs)
  then obtain q where x: "h = x" "x \<noteq> 0" "pv x = Some b" "nx x = Some q"
      "dlist nx pv x q (xs @ a # ys)"
    by (auto split: option.splits)
  from Cons.prems(1) have fresh: "x \<notin> set (xs @ a # ys)"
    by (simp only: append_Cons) (rule dlist_head_notin_tail)
  from Cons.IH[OF x(5) fresh]
  have IH: "p = (if xs = [] then x else last xs)"
    "dlist nx' pv' x (if xs = [] then n else q) (xs @ ys)"
    by auto
  have n: "n = (case ys of [] \<Rightarrow> 0 | y # zs \<Rightarrow> y)"
    using x(5) assms(3) by (rule dlist_successor)
  with fresh x(2) have "n \<noteq> x" by (cases ys) auto
  with fresh x(3) have pv_x: "pv' x = Some b"
    by (auto simp: pv')
  have nx_x: "nx' x = Some (if xs = [] then n else q)"
  proof (cases xs)
    case Nil
    with IH(1) x(2) fresh show ?thesis by (auto simp: nx')
  next
    case (Cons c cs)
    with IH(1) have "p \<in> set xs" by auto
    with fresh have "p \<noteq> x" by auto
    with Cons x(4) fresh show ?thesis by (auto simp: nx')
  qed
  from IH pv_x nx_x x show ?case by auto
qed

lemma field_map_upd [simp]: "field_map f (h(p \<mapsto> e)) = (field_map f h)(p \<mapsto> f e)"
  by (rule ext) (simp add: field_map_def)

lemma field_map_del [simp]: "field_map f (h(p := None)) = (field_map f h)(p := None)"
  by (rule ext) (simp add: field_map_def)

lemma field_map_empty [simp]: "field_map f Map.empty = Map.empty"
  by (rule ext) (simp add: field_map_def)

lemma field_map_Some: "h p = Some e \<Longrightarrow> field_map f h p = Some (f e)"
  by (simp add: field_map_def)

lemma field_map_dom [simp]: "dom (field_map f h) = dom h"
  by (auto simp: field_map_def dom_def)

section \<open>What each function computes\<close>

lemmas lock_defs = MutexLock_ctor_def MutexLock_dtor_def observe_def

lemmas jit_heap_defs = load_JITCodeEntry_def store_JITCodeEntry_def new_JITCodeEntry_def
  delete_JITCodeEntry_def new_uint8_array_def memcpy_def delete_uint8_array_def

lemmas dex_heap_defs = load_DEXFileEntry_def store_DEXFileEntry_def new_DEXFileEntry_def
  delete_DEXFileEntry_def

text \<open>The two paths on which the file functions change nothing but the trace.\<close>

lemma Deregister_absent:
  assumes "native_debug_interface_lock s = None"
    and "um_find (g_dexfile_entries s) k = None"
  shows "DeregisterDexFileForNative t k s =
     Some (s\<lparr>trace := trace s @
        [(LockAcquired, memory.truncate (s\<lparr>native_debug_interface_lock := Some t\<rparr>)),
         (LockReleased, memory.truncate (s\<lparr>native_debug_interface_lock := Some t\<rparr>))]\<rparr>)"
  using assms
  unfolding DeregisterDexFileForNative_def
  by (simp add: lock_defs memory.defs)

lemma Register_present:
  assumes "native_debug_interface_lock s = None"
    and "um_count (g_dexfile_entries s) k \<noteq> 0"
  shows "RegisterDexFileForNative t k new s =
     Some (s\<lparr>trace := trace s @
        [(LockAcquired, memory.truncate (s\<lparr>native_debug_interface_lock := Some t\<rparr>)),
         (LockReleased, memory.truncate (s\<lparr>native_debug_interface_lock := Some t\<rparr>))]\<rparr>)"
  using assms
  unfolding RegisterDexFileForNative_def
  by (simp add: lock_defs memory.defs)

lemma Create_result:
  assumes "kEnableDChecks \<longrightarrow> symfile \<noteq> []"
    and "new_array \<noteq> 0" and "new_entry \<noteq> 0"
    and "h = first_entry (jit_debug_descriptor s)"
    and "h = 0 \<or> h \<noteq> new_entry \<and> JITCodeEntry_heap s h = Some he"
  shows "\<exists>s'. CreateJITCodeEntry kEnableDChecks symfile new_array new_entry s = Some (new_entry, s') \<and>
     uint8_heap s' = (uint8_heap s)(new_array \<mapsto> symfile) \<and>
     JITCodeEntry_heap s' =
       (if h = 0 then (JITCodeEntry_heap s)(new_entry \<mapsto>
            \<lparr>jit_next = h, jit_prev = 0, symfile_addr = new_array,
             symfile_size = of_nat (length symfile), ref_count = 0\<rparr>)
        else (JITCodeEntry_heap s)(new_entry \<mapsto>
            \<lparr>jit_next = h, jit_prev = 0, symfile_addr = new_array,
             symfile_size = of_nat (length symfile), ref_count = 0\<rparr>,
            h \<mapsto> he\<lparr>jit_prev := new_entry\<rparr>)) \<and>
     g_jit_debug_mem_usage s' =
       g_jit_debug_mem_usage s + (sizeof_JITCodeEntry + of_nat (length symfile)) \<and>
     jit_debug_descriptor s' = \<lparr>version = version (jit_debug_descriptor s),
        action_flag = JIT_REGISTER_FN, relevant_entry = new_entry, first_entry = new_entry\<rparr> \<and>
     jit_debug_descriptor_timestamp s' = jit_debug_descriptor_timestamp s + 1 \<and>
     trace s' = trace s @ [(RegisterCodeCalled, memory.truncate s')] \<and>
     art_debug_dexfiles s' = art_debug_dexfiles s \<and>
     art_debug_dexfiles_timestamp s' = art_debug_dexfiles_timestamp s \<and>
     g_dexfile_entries s' = g_dexfile_entries s \<and>
     g_jit_code_entries s' = g_jit_code_entries s \<and>
     native_debug_interface_lock s' = native_debug_interface_lock s \<and>
     DEXFileEntry_heap s' = DEXFileEntry_heap s"
  using assms
  unfolding CreateJITCodeEntry_def
  by (auto simp: jit_heap_defs CHECK_def DCHECK_def Let_def jit_debug_register_code_ptr_def observe_def memory.defs)

lemma Delete_result:
  assumes "entry \<noteq> 0" and "JITCodeEntry_heap s entry = Some e"
    and "p = jit_prev e" and "n = jit_next e"
    and "p = 0 \<or> p \<noteq> entry \<and> JITCodeEntry_heap s p = Some pe"
    and "n = 0 \<or> n \<noteq> entry \<and> n \<noteq> p \<and> JITCodeEntry_heap s n = Some ne"
    and "symfile_addr e \<noteq> 0" and "uint8_heap s (symfile_addr e) \<noteq> None"
    and "H0 = (if p = 0 then JITCodeEntry_heap s else (JITCodeEntry_heap s)(p \<mapsto> pe\<lparr>jit_next := n\<rparr>))"
    and "H1 = (if n = 0 then H0 else H0(n \<mapsto> ne\<lparr>jit_prev := p\<rparr>))"
  shows "\<exists>s'. DeleteJITCodeEntry entry s = Some s' \<and>
     JITCodeEntry_heap s' = H1(entry := None) \<and>
     uint8_heap s' = (uint8_heap s)(symfile_addr e := None) \<and>
     g_jit_debug_mem_usage s' = g_jit_debug_mem_usage s - (sizeof_JITCodeEntry + symfile_size e) \<and>
     jit_debug_descriptor s' = \<lparr>version = version (jit_debug_descriptor s),
        action_flag = JIT_UNREGISTER_FN, relevant_entry = entry,
        first_entry = (if p = 0 then n else first_entry (jit_debug_descriptor s))\<rparr> \<and>
     jit_debug_descriptor_timestamp s' = jit_debug_descriptor_timestamp s + 1 \<and>
     trace s' = trace s @ [(RegisterCodeCalled,
        (memory.truncate s')\<lparr>JITCodeEntry_heap := H1, uint8_heap := uint8_heap s\<rparr>)] \<and>
     art_debug_dexfiles s' = art_debug_dexfiles s \<and>
     art_debug_dexfiles_timestamp s' = art_debug_dexfiles_timestamp s \<and>
     g_dexfile_entries s' = g_dexfile_entries s \<and>
     g_jit_code_entries s' = g_jit_code_entries s \<and>
     native_debug_interface_lock s' = native_debug_interface_lock s \<and>
     DEXFileEntry_heap s' = DEXFileEntry_heap s"
  using assms
  unfolding DeleteJITCodeEntry_def
  by (auto simp: jit_heap_defs Let_def jit_debug_register_code_ptr_def observe_def memory.defs)

lemma Increment_result:
  assumes "entry \<noteq> 0" and "JITCodeEntry_heap s entry = Some e"
    and "kEnableDChecks \<longrightarrow> um_count (g_jit_code_entries s) code_address = 0"
  shows "IncrementJITCodeEntryRefcount kEnableDChecks entry code_address s =
     Some (s\<lparr>JITCodeEntry_heap := (JITCodeEntry_heap s)(entry \<mapsto> e\<lparr>ref_count := ref_count e + 1\<rparr>),
             g_jit_code_entries := um_emplace code_address entry (g_jit_code_entries s)\<rparr>)"
  using assms
  unfolding IncrementJITCodeEntryRefcount_def
  by (auto simp: jit_heap_defs DCHECK_def)

lemma Decrement_result:
  assumes "entry \<noteq> 0" and "JITCodeEntry_heap s entry = Some e"
    and "kEnableDChecks \<longrightarrow> um_find (g_jit_code_entries s) code_address = Some entry"
    and "s1 = s\<lparr>JITCodeEntry_heap := (JITCodeEntry_heap s)(entry \<mapsto> e\<lparr>ref_count := ref_count e - 1\<rparr>)\<rparr>"
  shows "DecrementJITCodeEntryRefcount kEnableDChecks entry code_address s =
     (if ref_count e - 1 = 0
      then map_option (\<lambda>s3. s3\<lparr>g_jit_code_entries := um_erase code_address (g_jit_code_entries s3)\<rparr>)
             (DeleteJITCodeEntry entry s1)
      else Some (s1\<lparr>g_jit_code_entries := um_erase code_address (g_jit_code_entries s)\<rparr>))"
  using assms
  unfolding DecrementJITCodeEntryRefcount_def
  by (cases "DeleteJITCodeEntry entry s1")
     (auto simp: jit_heap_defs DCHECK_def CHECK_def um_subscript_def um_find_def)

lemma Register_result:
  assumes "native_debug_interface_lock s = None"
    and "um_count (g_dexfile_entries s) k = 0"
    and "new \<noteq> 0"
    and "h = art_debug_dexfiles s"
    and "h = 0 \<or> h \<noteq> new \<and> DEXFileEntry_heap s h = Some he"
  shows "\<exists>s'. RegisterDexFileForNative t k new s = Some s' \<and>
     DEXFileEntry_heap s' =
       (if h = 0 then (DEXFileEntry_heap s)(new \<mapsto> \<lparr>dex_next = h, dex_prev = 0, dexfile = k\<rparr>)
        else (DEXFileEntry_heap s)(new \<mapsto> \<lparr>dex_next = h, dex_prev = 0, dexfile = k\<rparr>,
               h \<mapsto> he\<lparr>dex_prev := new\<rparr>)) \<and>
     art_debug_dexfiles s' = new \<and>
     art_debug_dexfiles_timestamp s' = art_debug_dexfiles_timestamp s + 1 \<and>
     g_dexfile_entries s' = (k, new) # g_dexfile_entries s \<and>
     trace s' = trace s @
        [(LockAcquired, memory.truncate (s\<lparr>native_debug_interface_lock := Some t\<rparr>)),
         (LockReleased, memory.truncate (s'\<lparr>native_debug_interface_lock := Some t\<rparr>))] \<and>
     native_debug_interface_lock s' = None \<and>
     jit_debug_descriptor s' = jit_debug_descriptor s \<and>
     jit_debug_descriptor_timestamp s' = jit_debug_descriptor_timestamp s \<and>
     g_jit_debug_mem_usage s' = g_jit_debug_mem_usage s \<and>
     g_jit_code_entries s' = g_jit_code_entries s \<and>
     JITCodeEntry_heap s' = JITCodeEntry_heap s \<and>
     uint8_heap s' = uint8_heap s"
  using assms
  unfolding RegisterDexFileForNative_def
  by (auto simp: lock_defs dex_heap_defs CHECK_def Let_def memory.defs um_count_def um_emplace_def
      split: option.splits)

lemma Deregister_result:
  assumes "native_debug_interface_lock s = None"
    and "um_find (g_dexfile_entries s) k = Some entry"
    and "entry \<noteq> 0" and "DEXFileEntry_heap s entry = Some e"
    and "p = dex_prev e" and "n = dex_next e"
    and "p = 0 \<or> p \<noteq> entry \<and> DEXFileEntry_heap s p = Some pe"
    and "n = 0 \<or> n \<noteq> entry \<and> n \<noteq> p \<and> DEXFileEntry_heap s n = Some ne"
    and "H0 = (if p = 0 then DEXFileEntry_heap s else (DEXFileEntry_heap s)(p \<mapsto> pe\<lparr>dex_next := n\<rparr>))"
    and "H1 = (if n = 0 then H0 else H0(n \<mapsto> ne\<lparr>dex_prev := p\<rparr>))"
  shows "\<exists>s'. DeregisterDexFileForNative t k s = Some s' \<and>
     DEXFileEntry_heap s' = H1(entry := None) \<and>
     art_debug_dexfiles s' = (if p = 0 then n else art_debug_dexfiles s) \<and>
     art_debug_dexfiles_timestamp s' = art_debug_dexfiles_timestamp s + 1 \<and>
     g_dexfile_entries s' = um_erase k (g_dexfile_entries s) \<and>
     trace s' = trace s @
        [(LockAcquired, memory.truncate (s\<lparr>native_debug_interface_lock := Some t\<rparr>)),
         (LockReleased, memory.truncate (s'\<lparr>native_debug_interface_lock := Some t\<rparr>))] \<and>
     native_debug_interface_lock s' = None \<and>
     jit_debug_descriptor s' = jit_debug_descriptor s \<and>
     jit_debug_descriptor_timestamp s' = jit_debug_descriptor_timestamp s \<and>
     g_jit_debug_mem_usage s' = g_jit_debug_mem_usage s \<and>
     g_jit_code_entries s' = g_jit_code_entries s \<and>
     JITCodeEntry_heap s' = JITCodeEntry_heap s \<and>
     uint8_heap s' = uint8_heap s"
  using assms
  unfolding DeregisterDexFileForNative_def
  by (auto simp: lock_defs dex_heap_defs Let_def memory.defs)

lemma um_erase_absent: "k \<notin> fst ` set m \<Longrightarrow> um_erase k m = m"
  by (induction m) (auto simp: um_erase_def)

lemma um_erase_values:
  "distinct (map fst m) \<Longrightarrow> distinct (map snd m) \<Longrightarrow> map_of m k = Some v \<Longrightarrow>
   map snd (um_erase k m) = remove1 v (map snd m)"
proof (induction m)
  case Nil
  then show ?case by simp
next
  case (Cons kv m)
  show ?case
  proof (cases "fst kv = k")
    case True
    with Cons.prems have "snd kv = v" by (cases kv) auto
    moreover from True Cons.prems(1) have "um_erase k m = m"
      by (intro um_erase_absent) auto
    ultimately show ?thesis using True by (simp add: um_erase_def)
  next
    case False
    with Cons.prems have m: "map_of m k = Some v" by (cases kv) auto
    then have "v \<in> snd ` set m" by (metis image_eqI map_of_SomeD snd_conv)
    with Cons.prems(2) have "snd kv \<noteq> v" by auto
    with False Cons m show ?thesis by (auto simp: um_erase_def)
  qed
qed

lemma um_erase_keys: "distinct (map fst m) \<Longrightarrow> distinct (map fst (um_erase k m))"
  by (simp add: um_erase_def distinct_map_filter)

lemma um_erase_subset: "set (um_erase k m) \<subseteq> set m"
  by (auto simp: um_erase_def)

lemma um_erase_find: "um_find (um_erase k m) k = None"
  by (induction m) (auto simp: um_erase_def um_find_def)

lemma um_erase_find_other: "k' \<noteq> k \<Longrightarrow> um_find (um_erase k m) k' = um_find m k'"
  by (induction m) (auto simp: um_erase_def um_find_def)

lemma um_emplace_keys: "distinct (map fst m) \<Longrightarrow> distinct (map fst (um_emplace k v m))"
  by (auto simp: um_emplace_def split: option.splits simp: map_of_eq_None_iff)

section \<open>The invariants are kept\<close>

lemma blob_of_link_upd [simp]:
  "h p = Some e \<Longrightarrow> blob_of (h(p \<mapsto> e\<lparr>jit_next := x\<rparr>)) = blob_of h"
  "h p = Some e \<Longrightarrow> blob_of (h(p \<mapsto> e\<lparr>jit_prev := x\<rparr>)) = blob_of h"
  "h p = Some e \<Longrightarrow> blob_of (h(p \<mapsto> e\<lparr>ref_count := r\<rparr>)) = blob_of h"
  by (rule ext, simp add: blob_of_def)+

lemma accounted_link_upd [simp]:
  "h p = Some e \<Longrightarrow> accounted (h(p \<mapsto> e\<lparr>jit_next := x\<rparr>)) = accounted h"
  "h p = Some e \<Longrightarrow> accounted (h(p \<mapsto> e\<lparr>jit_prev := x\<rparr>)) = accounted h"
  "h p = Some e \<Longrightarrow> accounted (h(p \<mapsto> e\<lparr>ref_count := r\<rparr>)) = accounted h"
  by (rule ext, simp add: accounted_def)+

lemma has_blob_link_upd [simp]:
  "h p = Some e \<Longrightarrow> has_blob u (h(p \<mapsto> e\<lparr>jit_next := x\<rparr>)) = has_blob u h"
  "h p = Some e \<Longrightarrow> has_blob u (h(p \<mapsto> e\<lparr>jit_prev := x\<rparr>)) = has_blob u h"
  "h p = Some e \<Longrightarrow> has_blob u (h(p \<mapsto> e\<lparr>ref_count := r\<rparr>)) = has_blob u h"
  by (rule ext, simp add: has_blob_def cong: option.case_cong)+

lemma code_entries_ok_head:
  assumes "code_entries_ok s es"
  shows "first_entry (jit_debug_descriptor s) = 0 \<or>
         (\<exists>he. JITCodeEntry_heap s (first_entry (jit_debug_descriptor s)) = Some he)"
proof -
  from assms have l: "code_list s es" and d: "dom (JITCodeEntry_heap s) = set es"
    by (auto simp: code_entries_ok_def)
  from l have "first_entry (jit_debug_descriptor s) = (case es of [] \<Rightarrow> 0 | a # as \<Rightarrow> a)"
    unfolding code_list_def by (rule dlist_head)
  with d show ?thesis by (cases es) auto
qed

lemma Create_ok:
  assumes ok: "code_entries_ok s es"
    and k: "kEnableDChecks \<longrightarrow> symfile \<noteq> []"
    and nz: "new_array \<noteq> 0" "new_entry \<noteq> 0"
    and fresh: "uint8_heap s new_array = None" "JITCodeEntry_heap s new_entry = None"
  shows "\<exists>s'. CreateJITCodeEntry kEnableDChecks symfile new_array new_entry s = Some (new_entry, s') \<and>
     code_entries_ok s' (new_entry # es) \<and>
     JITCodeEntry_heap s' new_entry = Some
        \<lparr>jit_next = first_entry (jit_debug_descriptor s), jit_prev = 0, symfile_addr = new_array,
         symfile_size = of_nat (length symfile), ref_count = 0\<rparr> \<and>
     (\<forall>a. a \<noteq> new_entry \<longrightarrow> map_option ref_count (JITCodeEntry_heap s' a) = map_option ref_count (JITCodeEntry_heap s a)) \<and>
     uint8_heap s' = (uint8_heap s)(new_array \<mapsto> symfile) \<and>
     g_jit_debug_mem_usage s' =
       g_jit_debug_mem_usage s + (sizeof_JITCodeEntry + of_nat (length symfile)) \<and>
     jit_debug_descriptor s' = \<lparr>version = version (jit_debug_descriptor s),
        action_flag = JIT_REGISTER_FN, relevant_entry = new_entry, first_entry = new_entry\<rparr> \<and>
     jit_debug_descriptor_timestamp s' = jit_debug_descriptor_timestamp s + 1 \<and>
     trace s' = trace s @ [(RegisterCodeCalled, memory.truncate s')] \<and>
     art_debug_dexfiles s' = art_debug_dexfiles s \<and>
     art_debug_dexfiles_timestamp s' = art_debug_dexfiles_timestamp s \<and>
     g_dexfile_entries s' = g_dexfile_entries s \<and>
     g_jit_code_entries s' = g_jit_code_entries s \<and>
     native_debug_interface_lock s' = native_debug_interface_lock s \<and>
     DEXFileEntry_heap s' = DEXFileEntry_heap s"
proof -
  define h where "h = first_entry (jit_debug_descriptor s)"
  define H where "H = JITCodeEntry_heap s"
  define E where "E = \<lparr>jit_next = h, jit_prev = 0, symfile_addr = new_array,
             symfile_size = of_nat (length symfile), ref_count = 0\<rparr>"
  from ok have l: "dlist (field_map jit_next H) (field_map jit_prev H) 0 h es"
    and d: "dom H = set es"
    and bd: "distinct (map (blob_of H) es)"
    and bl: "\<forall>a\<in>set es. blob_of H a \<noteq> 0 \<and> has_blob (uint8_heap s) H a"
    and g: "g_jit_debug_mem_usage s = sum_list (map (accounted H) es)"
    and ix: "distinct (map fst (g_jit_code_entries s))"
    by (auto simp: code_entries_ok_def code_list_def h_def H_def)
  from fresh(2) d have new_es: "new_entry \<notin> set es" by (auto simp: H_def)
  from code_entries_ok_head[OF ok] obtain he where
    he: "h = 0 \<or> H h = Some he" by (auto simp: h_def H_def)
  with fresh(2) have he': "h = 0 \<or> h \<noteq> new_entry \<and> JITCodeEntry_heap s h = Some he"
    by (auto simp: H_def)
  define H' where "H' = (if h = 0 then H(new_entry \<mapsto> E) else H(new_entry \<mapsto> E, h \<mapsto> he\<lparr>jit_prev := new_entry\<rparr>))"
  from Create_result[OF k nz h_def he', of ] obtain s' where
    s': "CreateJITCodeEntry kEnableDChecks symfile new_array new_entry s = Some (new_entry, s')"
     "uint8_heap s' = (uint8_heap s)(new_array \<mapsto> symfile)"
     "JITCodeEntry_heap s' = H'"
     "g_jit_debug_mem_usage s' =
       g_jit_debug_mem_usage s + (sizeof_JITCodeEntry + of_nat (length symfile))"
     "jit_debug_descriptor s' = \<lparr>version = version (jit_debug_descriptor s),
        action_flag = JIT_REGISTER_FN, relevant_entry = new_entry, first_entry = new_entry\<rparr>"
     "jit_debug_descriptor_timestamp s' = jit_debug_descriptor_timestamp s + 1"
     "trace s' = trace s @ [(RegisterCodeCalled, memory.truncate s')]"
     "art_debug_dexfiles s' = art_debug_dexfiles s"
     "art_debug_dexfiles_timestamp s' = art_debug_dexfiles_timestamp s"
     "g_dexfile_entries s' = g_dexfile_entries s"
     "g_jit_code_entries s' = g_jit_code_entries s"
     "native_debug_interface_lock s' = native_debug_interface_lock s"
     "DEXFileEntry_heap s' = DEXFileEntry_heap s"
    unfolding H'_def E_def H_def by blast
  have nxm: "field_map jit_next H' = (field_map jit_next H)(new_entry \<mapsto> h)"
    using he new_es d by (auto simp: H'_def E_def fun_upd_twist intro!: ext simp: field_map_def)
  have pvm: "field_map jit_prev H' =
      (if h \<noteq> 0 then (field_map jit_prev H)(new_entry \<mapsto> 0, h \<mapsto> new_entry)
       else (field_map jit_prev H)(new_entry \<mapsto> 0))"
    using he by (auto simp: H'_def E_def)
  have list': "dlist (field_map jit_next H') (field_map jit_prev H') 0 new_entry (new_entry # es)"
    unfolding nxm pvm using l nz(2) new_es by (rule dlist_push)
  have dom': "dom H' = set (new_entry # es)"
    using he d by (auto simp: H'_def)
  have old: "blob_of H' a = blob_of H a \<and> accounted H' a = accounted H a" if "a \<in> set es" for a
    using that new_es he by (auto simp: H'_def blob_of_def accounted_def)
  have new: "blob_of H' new_entry = new_array"
    "accounted H' new_entry = sizeof_JITCodeEntry + of_nat (length symfile)"
    using he' by (auto simp: H'_def blob_of_def accounted_def E_def)
  have maps: "map (blob_of H') es = map (blob_of H) es" "map (accounted H') es = map (accounted H) es"
    using old by auto
  have "new_array \<notin> blob_of H ` set es"
    using bl fresh(1) by (auto simp: has_blob_def)
  with bd have bd': "distinct (map (blob_of H') (new_entry # es))"
    by (simp add: maps new)
  have bl': "\<forall>a\<in>set (new_entry # es). blob_of H' a \<noteq> 0 \<and> has_blob (uint8_heap s') H' a"
    using bl nz(1) old new fresh(1) by (auto simp: s'(2) has_blob_def split: option.splits)
  have g': "g_jit_debug_mem_usage s' = sum_list (map (accounted H') (new_entry # es))"
    by (simp add: s'(4) g maps new)
  have ok': "code_entries_ok s' (new_entry # es)"
    unfolding code_entries_ok_def code_list_def s'(3) s'(5) s'(11)
    using list' dom' bd' bl' g' ix by simp
  have ent: "H' new_entry = Some E" using he' by (auto simp: H'_def)
  have rc: "\<forall>a. a \<noteq> new_entry \<longrightarrow> map_option ref_count (H' a) = map_option ref_count (H a)"
    using he by (auto simp: H'_def)
  from s' ok' ent rc show ?thesis
    unfolding E_def h_def H_def by (intro exI[of _ s']) simp
qed

lemma Delete_ok:
  assumes ok: "code_entries_ok s es" and mem: "entry \<in> set es"
  shows "\<exists>s' e m. JITCodeEntry_heap s entry = Some e \<and>
     DeleteJITCodeEntry entry s = Some s' \<and>
     code_entries_ok s' (remove1 entry es) \<and>
     JITCodeEntry_heap s' entry = None \<and>
     (\<forall>a. a \<noteq> entry \<longrightarrow> map_option ref_count (JITCodeEntry_heap s' a) = map_option ref_count (JITCodeEntry_heap s a)) \<and>
     uint8_heap s' = (uint8_heap s)(symfile_addr e := None) \<and>
     g_jit_debug_mem_usage s' = g_jit_debug_mem_usage s - (sizeof_JITCodeEntry + symfile_size e) \<and>
     version (jit_debug_descriptor s') = version (jit_debug_descriptor s) \<and>
     action_flag (jit_debug_descriptor s') = JIT_UNREGISTER_FN \<and>
     relevant_entry (jit_debug_descriptor s') = entry \<and>
     jit_debug_descriptor_timestamp s' = jit_debug_descriptor_timestamp s + 1 \<and>
     trace s' = trace s @ [(RegisterCodeCalled, m)] \<and>
     m = (memory.truncate s')\<lparr>JITCodeEntry_heap := (JITCodeEntry_heap s')(entry \<mapsto> e),
                               uint8_heap := uint8_heap s\<rparr> \<and>
     art_debug_dexfiles s' = art_debug_dexfiles s \<and>
     art_debug_dexfiles_timestamp s' = art_debug_dexfiles_timestamp s \<and>
     g_dexfile_entries s' = g_dexfile_entries s \<and>
     g_jit_code_entries s' = g_jit_code_entries s \<and>
     native_debug_interface_lock s' = native_debug_interface_lock s \<and>
     DEXFileEntry_heap s' = DEXFileEntry_heap s"
proof -
  define h where "h = first_entry (jit_debug_descriptor s)"
  define H where "H = JITCodeEntry_heap s"
  from ok have l: "dlist (field_map jit_next H) (field_map jit_prev H) 0 h es"
    and d: "dom H = set es"
    and bd: "distinct (map (blob_of H) es)"
    and bl: "\<forall>a\<in>set es. blob_of H a \<noteq> 0 \<and> has_blob (uint8_heap s) H a"
    and g: "g_jit_debug_mem_usage s = sum_list (map (accounted H) es)"
    and ix: "distinct (map fst (g_jit_code_entries s))"
    by (auto simp: code_entries_ok_def code_list_def h_def H_def)
  from l have dist: "distinct es" and nz: "0 \<notin> set es"
    by (rule dlist_distinct, rule dlist_nonzero)
  from mem obtain xs ys where es: "es = xs @ entry # ys"
    by (auto simp: in_set_conv_decomp)
  with dist have notin: "entry \<notin> set xs" "entry \<notin> set ys" "set xs \<inter> set ys = {}" by auto
  from mem d obtain e where e: "H entry = Some e" by auto
  define p where "p = jit_prev e"
  define n where "n = jit_next e"
  have links: "field_map jit_next H entry = Some n" "field_map jit_prev H entry = Some p"
    using e by (simp_all add: field_map_def n_def p_def)
  define nx' where "nx' = (if p \<noteq> 0 then (field_map jit_next H)(p \<mapsto> n) else field_map jit_next H)(entry := None)"
  define pv' where "pv' = (if n \<noteq> 0 then (field_map jit_prev H)(n \<mapsto> p) else field_map jit_prev H)(entry := None)"
  from l nz have "p = (if xs = [] then 0 else last xs) \<and>
         dlist nx' pv' 0 (if xs = [] then n else h) (xs @ ys)"
    unfolding es by (rule dlist_splice[OF _ _ links nx'_def pv'_def])
  then have p: "p = (if xs = [] then 0 else last xs)"
    and l': "dlist nx' pv' 0 (if xs = [] then n else h) (xs @ ys)" by auto
  have n: "n = (case ys of [] \<Rightarrow> 0 | y # zs \<Rightarrow> y)"
    using l links(1) unfolding es by (rule dlist_successor)
  have last_xs: "last xs \<in> set xs \<and> last xs \<noteq> 0" if "xs \<noteq> []"
  proof -
    from that have "last xs \<in> set xs" by (rule last_in_set)
    with nz es show ?thesis by auto
  qed
  have p_cases: "p = 0 \<and> xs = [] \<or> p \<in> set xs \<and> p \<noteq> 0"
    using p last_xs by (cases "xs = []") auto
  have n_cases: "n = 0 \<or> n \<in> set ys \<and> n \<noteq> 0"
    using n nz es by (cases ys) auto
  obtain pe where pe: "p = 0 \<or> p \<noteq> entry \<and> H p = Some pe"
    using p_cases notin(1) d es by (cases "p = 0") auto
  obtain ne where ne: "n = 0 \<or> n \<noteq> entry \<and> n \<noteq> p \<and> H n = Some ne"
    using n_cases p_cases notin d es by (cases "n = 0") auto
  have blob: "symfile_addr e \<noteq> 0" "uint8_heap s (symfile_addr e) \<noteq> None"
    using bl mem e by (auto simp: blob_of_def has_blob_def split: option.splits)
  define H0 where "H0 = (if p = 0 then H else H(p \<mapsto> pe\<lparr>jit_next := n\<rparr>))"
  define H1 where "H1 = (if n = 0 then H0 else H0(n \<mapsto> ne\<lparr>jit_prev := p\<rparr>))"
  have ez: "entry \<noteq> 0" using nz mem by auto
  from Delete_result[OF ez e[unfolded H_def] p_def n_def pe[unfolded H_def] ne[unfolded H_def] blob
      H0_def[unfolded H_def] H1_def]
  obtain s' where s': "DeleteJITCodeEntry entry s = Some s'"
     "JITCodeEntry_heap s' = H1(entry := None)"
     "uint8_heap s' = (uint8_heap s)(symfile_addr e := None)"
     "g_jit_debug_mem_usage s' = g_jit_debug_mem_usage s - (sizeof_JITCodeEntry + symfile_size e)"
     "jit_debug_descriptor s' = \<lparr>version = version (jit_debug_descriptor s),
        action_flag = JIT_UNREGISTER_FN, relevant_entry = entry,
        first_entry = (if p = 0 then n else first_entry (jit_debug_descriptor s))\<rparr>"
     "jit_debug_descriptor_timestamp s' = jit_debug_descriptor_timestamp s + 1"
     "trace s' = trace s @ [(RegisterCodeCalled,
        (memory.truncate s')\<lparr>JITCodeEntry_heap := H1, uint8_heap := uint8_heap s\<rparr>)]"
     "art_debug_dexfiles s' = art_debug_dexfiles s"
     "art_debug_dexfiles_timestamp s' = art_debug_dexfiles_timestamp s"
     "g_dexfile_entries s' = g_dexfile_entries s"
     "g_jit_code_entries s' = g_jit_code_entries s"
     "native_debug_interface_lock s' = native_debug_interface_lock s"
     "DEXFileEntry_heap s' = DEXFileEntry_heap s"
    by blast
  have H1_entry: "H1 entry = Some e"
    using pe ne e by (auto simp: H1_def H0_def)
  have nxm: "field_map jit_next (H1(entry := None)) = nx'"
    using pe ne by (intro ext) (auto simp: H1_def H0_def nx'_def field_map_def)
  have pvm: "field_map jit_prev (H1(entry := None)) = pv'"
    using pe ne by (intro ext) (auto simp: H1_def H0_def pv'_def field_map_def)
  have head: "(if p = 0 then n else h) = (if xs = [] then n else h)"
    using p_cases by auto
  have rem: "remove1 entry es = xs @ ys"
    using notin(1) by (simp add: es remove1_append)
  have list': "dlist (field_map jit_next (H1(entry := None))) (field_map jit_prev (H1(entry := None)))
      0 (if p = 0 then n else h) (remove1 entry es)"
    unfolding nxm pvm head rem by (rule l')
  have dom': "dom (H1(entry := None)) = set (remove1 entry es)"
    using pe ne d dist by (auto simp: H1_def H0_def)
  have old: "blob_of (H1(entry := None)) a = blob_of H a"
    "accounted (H1(entry := None)) a = accounted H a"
    if "a \<noteq> entry" for a
    using that pe ne by (auto simp: H1_def H0_def blob_of_def accounted_def)
  have others: "\<forall>a\<in>set (xs @ ys). a \<noteq> entry"
    using notin by auto
  have maps: "map (blob_of (H1(entry := None))) (xs @ ys) = map (blob_of H) (xs @ ys)"
    "map (accounted (H1(entry := None))) (xs @ ys) = map (accounted H) (xs @ ys)"
    using old others by auto
  have bd': "distinct (map (blob_of (H1(entry := None))) (remove1 entry es))"
    unfolding rem maps using bd by (auto simp: es)
  have be: "blob_of H entry = symfile_addr e" using e by (simp add: blob_of_def)
  have other: "blob_of H a \<noteq> symfile_addr e" if "a \<in> set (xs @ ys)" for a
    using bd that be by (force simp: es)
  have hb: "has_blob (uint8_heap s') (H1(entry := None)) a = has_blob (uint8_heap s) H a"
    if "a \<in> set (xs @ ys)" for a
    using that old others other by (simp add: has_blob_def s'(3) cong: option.case_cong)
  have bl': "\<forall>a\<in>set (remove1 entry es). blob_of (H1(entry := None)) a \<noteq> 0 \<and>
      has_blob (uint8_heap s') (H1(entry := None)) a"
    unfolding rem using bl old others hb by (auto simp: es)
  have acc: "accounted H entry = sizeof_JITCodeEntry + symfile_size e"
    using e by (simp add: accounted_def)
  have g': "g_jit_debug_mem_usage s' = sum_list (map (accounted (H1(entry := None))) (remove1 entry es))"
    unfolding rem maps by (simp add: s'(4) g es acc)
  have ok': "code_entries_ok s' (remove1 entry es)"
    unfolding code_entries_ok_def code_list_def s'(2) s'(5) s'(11) h_def[symmetric]
    using list' dom' bd' bl' g' ix by simp
  have rc: "\<forall>a. a \<noteq> entry \<longrightarrow> map_option ref_count ((H1(entry := None)) a) = map_option ref_count (H a)"
    using pe ne by (auto simp: H1_def H0_def)
  have restore: "(H1(entry := None))(entry \<mapsto> e) = H1"
    using H1_entry by (auto intro!: ext)
  from s' ok' rc e restore show ?thesis
    unfolding H_def by (intro exI[of _ s'] exI[of _ e]) simp
qed

lemma file_entries_ok_head:
  assumes "file_entries_ok s fs"
  shows "art_debug_dexfiles s = 0 \<or> (\<exists>he. DEXFileEntry_heap s (art_debug_dexfiles s) = Some he)"
proof -
  from assms have l: "file_list s fs" and d: "dom (DEXFileEntry_heap s) = set fs"
    by (auto simp: file_entries_ok_def)
  from l have "art_debug_dexfiles s = (case fs of [] \<Rightarrow> 0 | a # as \<Rightarrow> a)"
    unfolding file_list_def by (rule dlist_head)
  with d show ?thesis by (cases fs) auto
qed

lemma Register_ok:
  assumes ok: "file_entries_ok s fs"
    and free: "native_debug_interface_lock s = None"
    and absent: "um_count (g_dexfile_entries s) k = 0"
    and nz: "new \<noteq> 0" and fresh: "DEXFileEntry_heap s new = None"
  shows "\<exists>s'. RegisterDexFileForNative t k new s = Some s' \<and>
     file_entries_ok s' (new # fs) \<and>
     DEXFileEntry_heap s' new = Some \<lparr>dex_next = art_debug_dexfiles s, dex_prev = 0, dexfile = k\<rparr> \<and>
     (\<forall>a. a \<noteq> new \<longrightarrow> map_option dexfile (DEXFileEntry_heap s' a) = map_option dexfile (DEXFileEntry_heap s a)) \<and>
     art_debug_dexfiles s' = new \<and>
     art_debug_dexfiles_timestamp s' = art_debug_dexfiles_timestamp s + 1 \<and>
     g_dexfile_entries s' = (k, new) # g_dexfile_entries s \<and>
     trace s' = trace s @
        [(LockAcquired, memory.truncate (s\<lparr>native_debug_interface_lock := Some t\<rparr>)),
         (LockReleased, memory.truncate (s'\<lparr>native_debug_interface_lock := Some t\<rparr>))] \<and>
     native_debug_interface_lock s' = None \<and>
     jit_debug_descriptor s' = jit_debug_descriptor s \<and>
     jit_debug_descriptor_timestamp s' = jit_debug_descriptor_timestamp s \<and>
     g_jit_debug_mem_usage s' = g_jit_debug_mem_usage s \<and>
     g_jit_code_entries s' = g_jit_code_entries s \<and>
     JITCodeEntry_heap s' = JITCodeEntry_heap s \<and>
     uint8_heap s' = uint8_heap s"
proof -
  define h where "h = art_debug_dexfiles s"
  define H where "H = DEXFileEntry_heap s"
  define E where "E = \<lparr>dex_next = h, dex_prev = 0, dexfile = k\<rparr>"
  from ok have l: "dlist (field_map dex_next H) (field_map dex_prev H) 0 h fs"
    and d: "dom H = set fs"
    and vals: "map snd (g_dexfile_entries s) = fs"
    and keys: "distinct (map fst (g_dexfile_entries s))"
    and holds: "\<forall>kv\<in>set (g_dexfile_entries s). map_option dexfile (H (snd kv)) = Some (fst kv)"
    by (auto simp: file_entries_ok_def file_list_def h_def H_def)
  from fresh d have new_fs: "new \<notin> set fs" by (auto simp: H_def)
  from file_entries_ok_head[OF ok] obtain he where
    he: "h = 0 \<or> H h = Some he" by (auto simp: h_def H_def)
  with fresh have he': "h = 0 \<or> h \<noteq> new \<and> DEXFileEntry_heap s h = Some he"
    by (auto simp: H_def)
  define H' where "H' = (if h = 0 then H(new \<mapsto> E) else H(new \<mapsto> E, h \<mapsto> he\<lparr>dex_prev := new\<rparr>))"
  from Register_result[OF free absent nz h_def he', of t] obtain s' where
    s': "RegisterDexFileForNative t k new s = Some s'"
     "DEXFileEntry_heap s' = H'"
     "art_debug_dexfiles s' = new"
     "art_debug_dexfiles_timestamp s' = art_debug_dexfiles_timestamp s + 1"
     "g_dexfile_entries s' = (k, new) # g_dexfile_entries s"
     "trace s' = trace s @
        [(LockAcquired, memory.truncate (s\<lparr>native_debug_interface_lock := Some t\<rparr>)),
         (LockReleased, memory.truncate (s'\<lparr>native_debug_interface_lock := Some t\<rparr>))]"
     "native_debug_interface_lock s' = None"
     "jit_debug_descriptor s' = jit_debug_descriptor s"
     "jit_debug_descriptor_timestamp s' = jit_debug_descriptor_timestamp s"
     "g_jit_debug_mem_usage s' = g_jit_debug_mem_usage s"
     "g_jit_code_entries s' = g_jit_code_entries s"
     "JITCodeEntry_heap s' = JITCodeEntry_heap s"
     "uint8_heap s' = uint8_heap s"
    unfolding H'_def E_def H_def by blast
  have nxm: "field_map dex_next H' = (field_map dex_next H)(new \<mapsto> h)"
    using he' by (intro ext) (auto simp: H'_def E_def field_map_def H_def)
  have pvm: "field_map dex_prev H' =
      (if h \<noteq> 0 then (field_map dex_prev H)(new \<mapsto> 0, h \<mapsto> new)
       else (field_map dex_prev H)(new \<mapsto> 0))"
    using he' by (intro ext) (auto simp: H'_def E_def field_map_def H_def)
  have list': "dlist (field_map dex_next H') (field_map dex_prev H') 0 new (new # fs)"
    unfolding nxm pvm using l nz new_fs by (rule dlist_push)
  have dom': "dom H' = set (new # fs)"
    using he d by (auto simp: H'_def)
  have df: "map_option dexfile (H' a) = map_option dexfile (H a)" if "a \<noteq> new" for a
    using that he by (auto simp: H'_def)
  have ent: "H' new = Some E" using he' by (auto simp: H'_def)
  from absent have "k \<notin> fst ` set (g_dexfile_entries s)"
    by (auto simp: um_count_def map_of_eq_None_iff split: option.splits)
  with keys have keys': "distinct (map fst ((k, new) # g_dexfile_entries s))" by simp
  have ne_new: "snd kv \<noteq> new" if "kv \<in> set (g_dexfile_entries s)" for kv
    using that vals new_fs by auto
  have holds': "\<forall>kv\<in>set ((k, new) # g_dexfile_entries s).
      map_option dexfile (H' (snd kv)) = Some (fst kv)"
  proof
    fix kv
    assume "kv \<in> set ((k, new) # g_dexfile_entries s)"
    then consider "kv = (k, new)" | "kv \<in> set (g_dexfile_entries s)" by auto
    then show "map_option dexfile (H' (snd kv)) = Some (fst kv)"
    proof cases
      case 1
      then show ?thesis using ent by (simp add: E_def)
    next
      case 2
      then have "snd kv \<noteq> new" by (rule ne_new)
      then have "map_option dexfile (H' (snd kv)) = map_option dexfile (H (snd kv))"
        by (rule df)
      also have "\<dots> = Some (fst kv)" using holds 2 by blast
      finally show ?thesis .
    qed
  qed
  have ok': "file_entries_ok s' (new # fs)"
    unfolding file_entries_ok_def file_list_def s'(2) s'(3) s'(5)
    using list' dom' vals keys' holds' by simp
  from s' ok' ent df show ?thesis
    unfolding E_def h_def H_def by (intro exI[of _ s']) simp
qed

lemma Deregister_ok:
  assumes ok: "file_entries_ok s fs"
    and free: "native_debug_interface_lock s = None"
    and present: "um_find (g_dexfile_entries s) k = Some entry"
  shows "\<exists>s'. RegisterDexFileForNative t k new s \<noteq> None \<and>
     entry \<in> set fs \<and>
     DeregisterDexFileForNative t k s = Some s' \<and>
     file_entries_ok s' (remove1 entry fs) \<and>
     DEXFileEntry_heap s' entry = None \<and>
     (\<forall>a. a \<noteq> entry \<longrightarrow> map_option dexfile (DEXFileEntry_heap s' a) = map_option dexfile (DEXFileEntry_heap s a)) \<and>
     art_debug_dexfiles_timestamp s' = art_debug_dexfiles_timestamp s + 1 \<and>
     g_dexfile_entries s' = um_erase k (g_dexfile_entries s) \<and>
     trace s' = trace s @
        [(LockAcquired, memory.truncate (s\<lparr>native_debug_interface_lock := Some t\<rparr>)),
         (LockReleased, memory.truncate (s'\<lparr>native_debug_interface_lock := Some t\<rparr>))] \<and>
     native_debug_interface_lock s' = None \<and>
     jit_debug_descriptor s' = jit_debug_descriptor s \<and>
     jit_debug_descriptor_timestamp s' = jit_debug_descriptor_timestamp s \<and>
     g_jit_debug_mem_usage s' = g_jit_debug_mem_usage s \<and>
     g_jit_code_entries s' = g_jit_code_entries s \<and>
     JITCodeEntry_heap s' = JITCodeEntry_heap s \<and>
     uint8_heap s' = uint8_heap s"
proof -
  define h where "h = art_debug_dexfiles s"
  define H where "H = DEXFileEntry_heap s"
  from ok have l: "dlist (field_map dex_next H) (field_map dex_prev H) 0 h fs"
    and d: "dom H = set fs"
    and vals: "map snd (g_dexfile_entries s) = fs"
    and keys: "distinct (map fst (g_dexfile_entries s))"
    and holds: "\<forall>kv\<in>set (g_dexfile_entries s). map_option dexfile (H (snd kv)) = Some (fst kv)"
    by (auto simp: file_entries_ok_def file_list_def h_def H_def)
  from l have dist: "distinct fs" and nz: "0 \<notin> set fs"
    by (rule dlist_distinct, rule dlist_nonzero)
  from present have inidx: "(k, entry) \<in> set (g_dexfile_entries s)"
    by (auto simp: um_find_def dest: map_of_SomeD)
  then have mem: "entry \<in> set fs" using vals by force
  from mem obtain xs ys where fs: "fs = xs @ entry # ys"
    by (auto simp: in_set_conv_decomp)
  with dist have notin: "entry \<notin> set xs" "entry \<notin> set ys" "set xs \<inter> set ys = {}" by auto
  from mem d obtain e where e: "H entry = Some e" by auto
  define p where "p = dex_prev e"
  define n where "n = dex_next e"
  have links: "field_map dex_next H entry = Some n" "field_map dex_prev H entry = Some p"
    using e by (simp_all add: field_map_def n_def p_def)
  define nx' where "nx' = (if p \<noteq> 0 then (field_map dex_next H)(p \<mapsto> n) else field_map dex_next H)(entry := None)"
  define pv' where "pv' = (if n \<noteq> 0 then (field_map dex_prev H)(n \<mapsto> p) else field_map dex_prev H)(entry := None)"
  from l nz have "p = (if xs = [] then 0 else last xs) \<and>
         dlist nx' pv' 0 (if xs = [] then n else h) (xs @ ys)"
    unfolding fs by (rule dlist_splice[OF _ _ links nx'_def pv'_def])
  then have p: "p = (if xs = [] then 0 else last xs)"
    and l': "dlist nx' pv' 0 (if xs = [] then n else h) (xs @ ys)" by auto
  have n: "n = (case ys of [] \<Rightarrow> 0 | y # zs \<Rightarrow> y)"
    using l links(1) unfolding fs by (rule dlist_successor)
  have last_xs: "last xs \<in> set xs \<and> last xs \<noteq> 0" if "xs \<noteq> []"
  proof -
    from that have "last xs \<in> set xs" by (rule last_in_set)
    with nz fs show ?thesis by auto
  qed
  have p_cases: "p = 0 \<and> xs = [] \<or> p \<in> set xs \<and> p \<noteq> 0"
    using p last_xs by (cases "xs = []") auto
  have n_cases: "n = 0 \<or> n \<in> set ys \<and> n \<noteq> 0"
    using n nz fs by (cases ys) auto
  obtain pe where pe: "p = 0 \<or> p \<noteq> entry \<and> H p = Some pe"
    using p_cases notin(1) d fs by (cases "p = 0") auto
  obtain ne where ne: "n = 0 \<or> n \<noteq> entry \<and> n \<noteq> p \<and> H n = Some ne"
    using n_cases p_cases notin d fs by (cases "n = 0") auto
  define H0 where "H0 = (if p = 0 then H else H(p \<mapsto> pe\<lparr>dex_next := n\<rparr>))"
  define H1 where "H1 = (if n = 0 then H0 else H0(n \<mapsto> ne\<lparr>dex_prev := p\<rparr>))"
  have ez: "entry \<noteq> 0" using nz mem by auto
  from Deregister_result[OF free present ez e[unfolded H_def] p_def n_def pe[unfolded H_def]
      ne[unfolded H_def] H0_def[unfolded H_def] H1_def, of t]
  obtain s' where s': "DeregisterDexFileForNative t k s = Some s'"
     "DEXFileEntry_heap s' = H1(entry := None)"
     "art_debug_dexfiles s' = (if p = 0 then n else art_debug_dexfiles s)"
     "art_debug_dexfiles_timestamp s' = art_debug_dexfiles_timestamp s + 1"
     "g_dexfile_entries s' = um_erase k (g_dexfile_entries s)"
     "trace s' = trace s @
        [(LockAcquired, memory.truncate (s\<lparr>native_debug_interface_lock := Some t\<rparr>)),
         (LockReleased, memory.truncate (s'\<lparr>native_debug_interface_lock := Some t\<rparr>))]"
     "native_debug_interface_lock s' = None"
     "jit_debug_descriptor s' = jit_debug_descriptor s"
     "jit_debug_descriptor_timestamp s' = jit_debug_descriptor_timestamp s"
     "g_jit_debug_mem_usage s' = g_jit_debug_mem_usage s"
     "g_jit_code_entries s' = g_jit_code_entries s"
     "JITCodeEntry_heap s' = JITCodeEntry_heap s"
     "uint8_heap s' = uint8_heap s"
    by blast
  have nxm: "field_map dex_next (H1(entry := None)) = nx'"
    using pe ne by (intro ext) (auto simp: H1_def H0_def nx'_def field_map_def)
  have pvm: "field_map dex_prev (H1(entry := None)) = pv'"
    using pe ne by (intro ext) (auto simp: H1_def H0_def pv'_def field_map_def)
  have head: "(if p = 0 then n else h) = (if xs = [] then n else h)"
    using p_cases by auto
  have rem: "remove1 entry fs = xs @ ys"
    using notin(1) by (simp add: fs remove1_append)
  have list': "dlist (field_map dex_next (H1(entry := None))) (field_map dex_prev (H1(entry := None)))
      0 (if p = 0 then n else h) (remove1 entry fs)"
    unfolding nxm pvm head rem by (rule l')
  have dom': "dom (H1(entry := None)) = set (remove1 entry fs)"
    using pe ne d dist by (auto simp: H1_def H0_def)
  have df: "map_option dexfile ((H1(entry := None)) a) = map_option dexfile (H a)" if "a \<noteq> entry" for a
    using that pe ne by (auto simp: H1_def H0_def)
  have vals': "map snd (um_erase k (g_dexfile_entries s)) = remove1 entry fs"
    using um_erase_values[OF keys _ present[unfolded um_find_def]] dist vals by simp
  have keys': "distinct (map fst (um_erase k (g_dexfile_entries s)))"
    using keys by (rule um_erase_keys)
  have ne_entry: "snd kv \<noteq> entry" if "kv \<in> set (um_erase k (g_dexfile_entries s))" for kv
  proof -
    from that have "snd kv \<in> set (map snd (um_erase k (g_dexfile_entries s)))" by auto
    then show ?thesis unfolding vals' using dist by auto
  qed
  have holds': "\<forall>kv\<in>set (um_erase k (g_dexfile_entries s)).
      map_option dexfile ((H1(entry := None)) (snd kv)) = Some (fst kv)"
  proof
    fix kv
    assume kv: "kv \<in> set (um_erase k (g_dexfile_entries s))"
    then have "snd kv \<noteq> entry" by (rule ne_entry)
    then have "map_option dexfile ((H1(entry := None)) (snd kv)) = map_option dexfile (H (snd kv))"
      by (rule df)
    also have "\<dots> = Some (fst kv)"
      using holds kv um_erase_subset[of k "g_dexfile_entries s"] by blast
    finally show "map_option dexfile ((H1(entry := None)) (snd kv)) = Some (fst kv)" .
  qed
  have ok': "file_entries_ok s' (remove1 entry fs)"
    unfolding file_entries_ok_def file_list_def s'(2) s'(3) s'(5) h_def[symmetric]
    using list' dom' vals' keys' holds' by simp
  have reg: "RegisterDexFileForNative t k new s \<noteq> None"
    using Register_present[OF free, of k t new] present
    by (simp add: um_count_def um_find_def)
  from s' ok' df mem reg show ?thesis
    unfolding H_def by (intro exI[of _ s']) simp
qed

lemma code_entries_ok_live:
  assumes "code_entries_ok s es"
  shows "(JITCodeEntry_heap s a \<noteq> None) = (a \<in> set es)" and "a \<in> set es \<Longrightarrow> a \<noteq> 0"
proof -
  from assms have l: "code_list s es" and d: "dom (JITCodeEntry_heap s) = set es"
    by (auto simp: code_entries_ok_def)
  from d show "(JITCodeEntry_heap s a \<noteq> None) = (a \<in> set es)" by (auto simp: dom_def)
  from l have "0 \<notin> set es" unfolding code_list_def by (rule dlist_nonzero)
  then show "a \<in> set es \<Longrightarrow> a \<noteq> 0" by auto
qed

lemma code_entries_ok_rc:
  assumes ok: "code_entries_ok s es" and e: "JITCodeEntry_heap s entry = Some e"
    and ix: "distinct (map fst idx)"
  shows "code_entries_ok
     (s\<lparr>JITCodeEntry_heap := (JITCodeEntry_heap s)(entry \<mapsto> e\<lparr>ref_count := r\<rparr>),
        g_jit_code_entries := idx\<rparr>) es"
proof -
  have "dom ((JITCodeEntry_heap s)(entry \<mapsto> e\<lparr>ref_count := r\<rparr>)) = dom (JITCodeEntry_heap s)"
    using e by auto
  moreover have "field_map jit_next ((JITCodeEntry_heap s)(entry \<mapsto> e\<lparr>ref_count := r\<rparr>)) =
      field_map jit_next (JITCodeEntry_heap s)"
    "field_map jit_prev ((JITCodeEntry_heap s)(entry \<mapsto> e\<lparr>ref_count := r\<rparr>)) =
      field_map jit_prev (JITCodeEntry_heap s)"
    using e by (auto simp: field_map_def intro!: ext simp del: field_map_upd)
  ultimately show ?thesis
    using ok ix by (simp add: code_entries_ok_def code_list_def e del: field_map_upd)
qed

lemma Increment_ok:
  assumes ok: "code_entries_ok s es" and e: "JITCodeEntry_heap s entry = Some e"
    and k: "kEnableDChecks \<longrightarrow> um_count (g_jit_code_entries s) code_address = 0"
    and s': "s' = s\<lparr>JITCodeEntry_heap := (JITCodeEntry_heap s)(entry \<mapsto> e\<lparr>ref_count := ref_count e + 1\<rparr>),
             g_jit_code_entries := um_emplace code_address entry (g_jit_code_entries s)\<rparr>"
  shows "IncrementJITCodeEntryRefcount kEnableDChecks entry code_address s = Some s' \<and>
     code_entries_ok s' es"
proof -
  from e have "entry \<in> set es" using code_entries_ok_live(1)[OF ok, of entry] by simp
  then have nz: "entry \<noteq> 0" by (rule code_entries_ok_live(2)[OF ok])
  from ok have "distinct (map fst (g_jit_code_entries s))" by (simp add: code_entries_ok_def)
  then have "distinct (map fst (um_emplace code_address entry (g_jit_code_entries s)))"
    by (rule um_emplace_keys)
  with Increment_result[OF nz e k] code_entries_ok_rc[OF ok e] show ?thesis
    unfolding s' by simp
qed

lemma Decrement_ok:
  assumes ok: "code_entries_ok s es" and e: "JITCodeEntry_heap s entry = Some e"
    and k: "kEnableDChecks \<longrightarrow> um_find (g_jit_code_entries s) code_address = Some entry"
    and s1: "s1 = s\<lparr>JITCodeEntry_heap := (JITCodeEntry_heap s)(entry \<mapsto> e\<lparr>ref_count := ref_count e - 1\<rparr>)\<rparr>"
  shows "code_entries_ok s1 es"
    and "ref_count e - 1 \<noteq> 0 \<Longrightarrow>
       DecrementJITCodeEntryRefcount kEnableDChecks entry code_address s =
         Some (s1\<lparr>g_jit_code_entries := um_erase code_address (g_jit_code_entries s)\<rparr>) \<and>
       code_entries_ok (s1\<lparr>g_jit_code_entries := um_erase code_address (g_jit_code_entries s)\<rparr>) es"
    and "ref_count e - 1 = 0 \<Longrightarrow>
       \<exists>s2. DeleteJITCodeEntry entry s1 = Some s2 \<and>
         DecrementJITCodeEntryRefcount kEnableDChecks entry code_address s =
           Some (s2\<lparr>g_jit_code_entries := um_erase code_address (g_jit_code_entries s)\<rparr>) \<and>
         code_entries_ok (s2\<lparr>g_jit_code_entries := um_erase code_address (g_jit_code_entries s)\<rparr>)
           (remove1 entry es)"
proof -
  from e have mem: "entry \<in> set es" using code_entries_ok_live(1)[OF ok, of entry] by simp
  then have nz: "entry \<noteq> 0" by (rule code_entries_ok_live(2)[OF ok])
  from ok have ix: "distinct (map fst (g_jit_code_entries s))" by (simp add: code_entries_ok_def)
  then have ix': "distinct (map fst (um_erase code_address (g_jit_code_entries s)))"
    by (rule um_erase_keys)
  from code_entries_ok_rc[OF ok e ix, of "ref_count e - 1"]
  show ok1: "code_entries_ok s1 es" unfolding s1 by simp
  from code_entries_ok_rc[OF ok e ix', of "ref_count e - 1"]
  have ok2: "code_entries_ok (s1\<lparr>g_jit_code_entries := um_erase code_address (g_jit_code_entries s)\<rparr>) es"
    unfolding s1 by simp
  note res = Decrement_result[OF nz e k s1]
  show "DecrementJITCodeEntryRefcount kEnableDChecks entry code_address s =
         Some (s1\<lparr>g_jit_code_entries := um_erase code_address (g_jit_code_entries s)\<rparr>) \<and>
       code_entries_ok (s1\<lparr>g_jit_code_entries := um_erase code_address (g_jit_code_entries s)\<rparr>) es"
    if "ref_count e - 1 \<noteq> 0"
    using that res ok2 by simp
  show "\<exists>s2. DeleteJITCodeEntry entry s1 = Some s2 \<and>
         DecrementJITCodeEntryRefcount kEnableDChecks entry code_address s =
           Some (s2\<lparr>g_jit_code_entries := um_erase code_address (g_jit_code_entries s)\<rparr>) \<and>
         code_entries_ok (s2\<lparr>g_jit_code_entries := um_erase code_address (g_jit_code_entries s)\<rparr>)
           (remove1 entry es)"
    if zero: "ref_count e - 1 = 0"
  proof -
    from Delete_ok[OF ok1 mem] obtain s2 where
      s2: "DeleteJITCodeEntry entry s1 = Some s2" "code_entries_ok s2 (remove1 entry es)"
        "g_jit_code_entries s2 = g_jit_code_entries s1"
      by blast
    have idx: "g_jit_code_entries s2 = g_jit_code_entries s" using s2(3) by (simp add: s1)
    from s2(2) ix' have "code_entries_ok (s2\<lparr>g_jit_code_entries := um_erase code_address (g_jit_code_entries s)\<rparr>)
           (remove1 entry es)"
      by (simp add: code_entries_ok_def code_list_def)
    with res zero s2(1) idx show ?thesis by simp
  qed
qed

section \<open>Sequences of calls keep the invariants\<close>

lemma code_list_walks:
  assumes "code_list s es" and "length es \<le> n"
  shows "walk (field_map jit_next (JITCodeEntry_heap s)) n (first_entry (jit_debug_descriptor s)) = Some es"
    and "walk (field_map jit_prev (JITCodeEntry_heap s)) n (tail_of es) = Some (rev es)"
  using assms unfolding code_list_def
  by (rule dlist_walk, rule dlist_walk_back)

lemma file_list_walks:
  assumes "file_list s fs" and "length fs \<le> n"
  shows "walk (field_map dex_next (DEXFileEntry_heap s)) n (art_debug_dexfiles s) = Some fs"
    and "walk (field_map dex_prev (DEXFileEntry_heap s)) n (tail_of fs) = Some (rev fs)"
  using assms unfolding file_list_def
  by (rule dlist_walk, rule dlist_walk_back)

lemma code_entries_ok_frame:
  assumes "first_entry (jit_debug_descriptor s') = first_entry (jit_debug_descriptor s)"
    and "JITCodeEntry_heap s' = JITCodeEntry_heap s" and "uint8_heap s' = uint8_heap s"
    and "g_jit_debug_mem_usage s' = g_jit_debug_mem_usage s"
    and "g_jit_code_entries s' = g_jit_code_entries s"
  shows "code_entries_ok s' es = code_entries_ok s es"
  using assms by (simp add: code_entries_ok_def code_list_def)

lemma file_entries_ok_frame:
  assumes "art_debug_dexfiles s' = art_debug_dexfiles s"
    and "DEXFileEntry_heap s' = DEXFileEntry_heap s"
    and "g_dexfile_entries s' = g_dexfile_entries s"
  shows "file_entries_ok s' fs = file_entries_ok s fs"
  using assms by (simp add: file_entries_ok_def file_list_def)

lemma Increment_SomeD:
  assumes "IncrementJITCodeEntryRefcount k entry a s = Some s'"
  shows "entry \<noteq> 0" and "\<exists>e. JITCodeEntry_heap s entry = Some e"
    and "k \<longrightarrow> um_count (g_jit_code_entries s) a = 0"
  using assms unfolding IncrementJITCodeEntryRefcount_def
  by (auto simp: jit_heap_defs DCHECK_def split: Option.bind_splits if_splits)

lemma Decrement_SomeD:
  assumes "DecrementJITCodeEntryRefcount k entry a s = Some s'"
  shows "entry \<noteq> 0" and "\<exists>e. JITCodeEntry_heap s entry = Some e"
    and "k \<longrightarrow> um_find (g_jit_code_entries s) a = Some entry"
  using assms unfolding DecrementJITCodeEntryRefcount_def
  by (auto simp: jit_heap_defs DCHECK_def CHECK_def um_subscript_def um_find_def
      split: Option.bind_splits if_splits option.splits)

lemma Delete_SomeD:
  assumes "DeleteJITCodeEntry entry s = Some s'"
  shows "entry \<noteq> 0" and "\<exists>e. JITCodeEntry_heap s entry = Some e"
  using assms unfolding DeleteJITCodeEntry_def
  by (auto simp: load_JITCodeEntry_def split: Option.bind_splits if_splits)

lemma Create_SomeD:
  assumes "CreateJITCodeEntry k symfile new_array new_entry s = Some r"
  shows "k \<longrightarrow> symfile \<noteq> []" and "new_array \<noteq> 0" and "new_entry \<noteq> 0"
  using assms unfolding CreateJITCodeEntry_def
  by (auto simp: DCHECK_def CHECK_def Let_def split: Option.bind_splits if_splits)

lemma Register_SomeD:
  assumes "RegisterDexFileForNative t a new s = Some s'"
  shows "native_debug_interface_lock s = None"
    and "um_count (g_dexfile_entries s) a = 0 \<longrightarrow> new \<noteq> 0"
  using assms unfolding RegisterDexFileForNative_def
  by (auto simp: lock_defs CHECK_def Let_def split: Option.bind_splits if_splits)

lemma Deregister_SomeD:
  assumes "DeregisterDexFileForNative t a s = Some s'"
  shows "native_debug_interface_lock s = None"
  using assms unfolding DeregisterDexFileForNative_def
  by (auto simp: lock_defs split: Option.bind_splits if_splits)

lemma um_erase_fst: "map fst (um_erase a m) = removeAll a (map fst m)"
  by (induction m) (auto simp: um_erase_def)

lemma um_count_zero: "(um_count m a = 0) = (a \<notin> set (map fst m))"
proof (cases "map_of m a")
  case None
  then have "a \<notin> fst ` set m" by (simp add: map_of_eq_None_iff)
  with None show ?thesis by (simp add: um_count_def)
next
  case (Some v)
  then have "a \<in> fst ` set m" by (metis domI dom_map_of_conv_image_fst)
  with Some show ?thesis by (simp add: um_count_def)
qed

lemma call_ok:
  assumes cok: "code_entries_ok s es" and fok: "file_entries_ok s fs"
    and c: "call k c s = Some s'"
  shows "\<exists>es' fs'. code_entries_ok s' es' \<and> file_entries_ok s' fs' \<and>
     map fst (g_dexfile_entries s') = registered (map fst (g_dexfile_entries s)) [c]"
proof (cases c)
  case (RegisterFile t a new)
  with c have fresh: "DEXFileEntry_heap s new = None"
    and r: "RegisterDexFileForNative t a new s = Some s'"
    by (auto split: if_splits)
  note free = Register_SomeD(1)[OF r]
  show ?thesis
  proof (cases "um_count (g_dexfile_entries s) a = 0")
    case True
    with Register_SomeD(2)[OF r] have nz: "new \<noteq> 0" by simp
    from Register_ok[OF fok free True nz fresh, of t] r
    have s': "file_entries_ok s' (new # fs)"
      "g_dexfile_entries s' = (a, new) # g_dexfile_entries s"
      "jit_debug_descriptor s' = jit_debug_descriptor s"
      "g_jit_debug_mem_usage s' = g_jit_debug_mem_usage s"
      "g_jit_code_entries s' = g_jit_code_entries s"
      "JITCodeEntry_heap s' = JITCodeEntry_heap s"
      "uint8_heap s' = uint8_heap s"
      by auto
    have "code_entries_ok s' es"
      using cok code_entries_ok_frame[of s' s es] s' by simp
    with s' True RegisterFile show ?thesis
      by (auto simp: um_count_zero)
  next
    case False
    with Register_present[OF free False, of t new] r
    have s': "s' = s\<lparr>trace := trace s' \<rparr>" by auto
    have "code_entries_ok s' es"
      by (subst s') (use cok in \<open>simp add: code_entries_ok_def code_list_def\<close>)
    moreover have "file_entries_ok s' fs"
      by (subst s') (use fok in \<open>simp add: file_entries_ok_def file_list_def\<close>)
    moreover have "g_dexfile_entries s' = g_dexfile_entries s"
      by (subst s') simp
    ultimately show ?thesis using False RegisterFile
      by (auto simp: um_count_zero)
  qed
next
  case (DeregisterFile t a)
  with c have r: "DeregisterDexFileForNative t a s = Some s'" by simp
  note free = Deregister_SomeD[OF r]
  show ?thesis
  proof (cases "um_find (g_dexfile_entries s) a")
    case None
    with Deregister_absent[OF free None, of t] r
    have s': "s' = s\<lparr>trace := trace s' \<rparr>" by auto
    have "code_entries_ok s' es"
      by (subst s') (use cok in \<open>simp add: code_entries_ok_def code_list_def\<close>)
    moreover have "file_entries_ok s' fs"
      by (subst s') (use fok in \<open>simp add: file_entries_ok_def file_list_def\<close>)
    moreover have "g_dexfile_entries s' = g_dexfile_entries s"
      by (subst s') simp
    moreover from None have "a \<notin> set (map fst (g_dexfile_entries s))"
      by (simp add: um_find_def map_of_eq_None_iff)
    ultimately show ?thesis using DeregisterFile by auto
  next
    case (Some entry)
    from Deregister_ok[OF fok free Some, of t] r
    have s': "file_entries_ok s' (remove1 entry fs)"
      "g_dexfile_entries s' = um_erase a (g_dexfile_entries s)"
      "jit_debug_descriptor s' = jit_debug_descriptor s"
      "g_jit_debug_mem_usage s' = g_jit_debug_mem_usage s"
      "g_jit_code_entries s' = g_jit_code_entries s"
      "JITCodeEntry_heap s' = JITCodeEntry_heap s"
      "uint8_heap s' = uint8_heap s"
      by auto
    have "code_entries_ok s' es"
      using cok code_entries_ok_frame[of s' s es] s' by simp
    with s' DeregisterFile show ?thesis
      by (auto simp: um_erase_fst)
  qed
next
  case (CreateCodeEntry symfile new_array new_entry)
  with c obtain r where fresh: "uint8_heap s new_array = None" "JITCodeEntry_heap s new_entry = None"
    and r: "CreateJITCodeEntry k symfile new_array new_entry s = Some r" "s' = snd r"
    by (auto split: if_splits)
  from Create_ok[OF cok Create_SomeD[OF r(1)] fresh] r
  have s': "code_entries_ok s' (new_entry # es)"
    "art_debug_dexfiles s' = art_debug_dexfiles s"
    "g_dexfile_entries s' = g_dexfile_entries s"
    "DEXFileEntry_heap s' = DEXFileEntry_heap s"
    by auto
  have "file_entries_ok s' fs"
    using fok file_entries_ok_frame[of s' s fs] s' by simp
  with s' CreateCodeEntry show ?thesis by auto
next
  case (DeleteCodeEntry entry)
  with c have r: "DeleteJITCodeEntry entry s = Some s'" by simp
  from Delete_SomeD(2)[OF r] have "entry \<in> set es"
    using code_entries_ok_live(1)[OF cok, of entry] by auto
  from Delete_ok[OF cok this] r
  have s': "code_entries_ok s' (remove1 entry es)"
    "art_debug_dexfiles s' = art_debug_dexfiles s"
    "g_dexfile_entries s' = g_dexfile_entries s"
    "DEXFileEntry_heap s' = DEXFileEntry_heap s"
    by auto
  have "file_entries_ok s' fs"
    using fok file_entries_ok_frame[of s' s fs] s' by simp
  with s' DeleteCodeEntry show ?thesis by auto
next
  case (Attach entry a)
  with c have r: "IncrementJITCodeEntryRefcount k entry a s = Some s'" by simp
  from Increment_SomeD(2)[OF r] obtain e where e: "JITCodeEntry_heap s entry = Some e" by blast
  from Increment_ok[OF cok e Increment_SomeD(3)[OF r] refl] r
  have s': "code_entries_ok s' es"
    "s' = s\<lparr>JITCodeEntry_heap := (JITCodeEntry_heap s)(entry \<mapsto> e\<lparr>ref_count := ref_count e + 1\<rparr>),
             g_jit_code_entries := um_emplace a entry (g_jit_code_entries s)\<rparr>"
    by auto
  have "file_entries_ok s' fs"
    by (subst s'(2)) (use fok in \<open>simp add: file_entries_ok_def file_list_def\<close>)
  moreover have "g_dexfile_entries s' = g_dexfile_entries s"
    by (subst s'(2)) simp
  ultimately show ?thesis using s'(1) Attach by auto
next
  case (Detach entry a)
  with c have r: "DecrementJITCodeEntryRefcount k entry a s = Some s'" by simp
  from Decrement_SomeD(2)[OF r] obtain e where e: "JITCodeEntry_heap s entry = Some e" by blast
  define s1 where "s1 = s\<lparr>JITCodeEntry_heap := (JITCodeEntry_heap s)(entry \<mapsto> e\<lparr>ref_count := ref_count e - 1\<rparr>)\<rparr>"
  note dec = Decrement_ok[OF cok e Decrement_SomeD(3)[OF r] s1_def]
  have f1: "file_entries_ok s1 fs"
    unfolding s1_def using fok by (simp add: file_entries_ok_def file_list_def)
  show ?thesis
  proof (cases "ref_count e - 1 = 0")
    case False
    from dec(2)[OF False] r
    have s': "s' = s1\<lparr>g_jit_code_entries := um_erase a (g_jit_code_entries s)\<rparr>"
      "code_entries_ok s' es" by auto
    have "file_entries_ok s' fs"
      by (subst s'(1)) (use f1 in \<open>simp add: file_entries_ok_def file_list_def\<close>)
    moreover have "g_dexfile_entries s' = g_dexfile_entries s"
      by (subst s'(1)) (simp add: s1_def)
    ultimately show ?thesis using s'(2) Detach by auto
  next
    case True
    from dec(3)[OF True] r obtain s2 where
      s2: "DeleteJITCodeEntry entry s1 = Some s2"
        "s' = s2\<lparr>g_jit_code_entries := um_erase a (g_jit_code_entries s)\<rparr>"
        "code_entries_ok s' (remove1 entry es)" by auto
    from e have "entry \<in> set es"
      using code_entries_ok_live(1)[OF cok, of entry] by auto
    from Delete_ok[OF dec(1) this] s2(1)
    have fr: "art_debug_dexfiles s2 = art_debug_dexfiles s1"
      "g_dexfile_entries s2 = g_dexfile_entries s1"
      "DEXFileEntry_heap s2 = DEXFileEntry_heap s1"
      by auto
    have "file_entries_ok s2 fs"
      using f1 file_entries_ok_frame[of s2 s1 fs] fr by simp
    then have "file_entries_ok s' fs"
      by (subst s2(2)) (simp add: file_entries_ok_def file_list_def)
    moreover have "g_dexfile_entries s' = g_dexfile_entries s"
      by (subst s2(2)) (simp add: fr s1_def)
    ultimately show ?thesis using s2(3) Detach by auto
  qed
next
  case (CallerLock t)
  with c have s': "s' = (s\<lparr>native_debug_interface_lock := Some t\<rparr>)\<lparr>trace := trace s'\<rparr>"
    by (auto simp: lock_defs split: if_splits)
  have "code_entries_ok s' es"
    by (subst s') (use cok in \<open>simp add: code_entries_ok_def code_list_def\<close>)
  moreover have "file_entries_ok s' fs"
    by (subst s') (use fok in \<open>simp add: file_entries_ok_def file_list_def\<close>)
  moreover have "g_dexfile_entries s' = g_dexfile_entries s"
    by (subst s') simp
  ultimately show ?thesis using CallerLock by auto
next
  case (CallerUnlock t)
  with c have s': "s' = (s\<lparr>native_debug_interface_lock := None\<rparr>)\<lparr>trace := trace s'\<rparr>"
    by (auto simp: lock_defs split: if_splits)
  have "code_entries_ok s' es"
    by (subst s') (use cok in \<open>simp add: code_entries_ok_def code_list_def\<close>)
  moreover have "file_entries_ok s' fs"
    by (subst s') (use fok in \<open>simp add: file_entries_ok_def file_list_def\<close>)
  moreover have "g_dexfile_entries s' = g_dexfile_entries s"
    by (subst s') simp
  ultimately show ?thesis using CallerUnlock by auto
qed

lemma registered_step: "registered ks (c # cs) = registered (registered ks [c]) cs"
  by (cases c) simp_all

lemma initial_state_ok: "code_entries_ok initial_state []" "file_entries_ok initial_state []"
  by (simp_all add: code_entries_ok_def file_entries_ok_def code_list_def file_list_def
      initial_state_def)

lemma run_ok:
  assumes "code_entries_ok s es" and "file_entries_ok s fs" and "run k cs s = Some s'"
  shows "\<exists>es' fs'. code_entries_ok s' es' \<and> file_entries_ok s' fs' \<and>
     map fst (g_dexfile_entries s') = registered (map fst (g_dexfile_entries s)) cs"
  using assms
proof (induction cs arbitrary: s es fs)
  case Nil
  then show ?case by auto
next
  case (Cons c cs)
  from Cons.prems(3) obtain s1 where s1: "call k c s = Some s1" "run k cs s1 = Some s'"
    by (auto split: option.splits)
  from call_ok[OF Cons.prems(1,2) s1(1)] obtain es1 fs1 where
    ok1: "code_entries_ok s1 es1" "file_entries_ok s1 fs1"
      "map fst (g_dexfile_entries s1) = registered (map fst (g_dexfile_entries s)) [c]"
    by blast
  from Cons.IH[OF ok1(1,2) s1(2)] ok1(3) show ?case
    by (subst registered_step) simp
qed

lemma registered_count:
  "distinct ks \<Longrightarrow> distinct_addresses ks cs \<Longrightarrow>
   length (registered ks cs) + deregistrations cs = length ks + registrations cs"
proof (induction ks cs rule: distinct_addresses.induct)
  case (3 ks t a cs)
  then have "length (removeAll a ks) = length ks - 1" "length ks > 0"
    by (auto simp: distinct_remove1_removeAll[symmetric] length_remove1 length_greater_0_conv)
  with 3 show ?case by (simp add: distinct_removeAll)
qed simp_all

lemma file_entries_ok_keys:
  assumes "file_entries_ok s fs"
  shows "map (\<lambda>a. map_option dexfile (DEXFileEntry_heap s a)) fs = map Some (map fst (g_dexfile_entries s))"
proof -
  from assms have vals: "map snd (g_dexfile_entries s) = fs"
    and holds: "\<forall>kv\<in>set (g_dexfile_entries s).
        map_option dexfile (DEXFileEntry_heap s (snd kv)) = Some (fst kv)"
    by (auto simp: file_entries_ok_def)
  have "map (\<lambda>a. map_option dexfile (DEXFileEntry_heap s a)) (map snd (g_dexfile_entries s)) =
      map Some (map fst (g_dexfile_entries s))"
    using holds by (simp add: comp_def)
  then show ?thesis by (simp add: vals)
qed

section \<open>Attaching and detaching code addresses\<close>

lemma um_find_attached:
  "um_find (map (\<lambda>a. (a, entry)) xs @ m) a = (if a \<in> set xs then Some entry else um_find m a)"
  by (induction xs) (auto simp: um_find_def)

lemma um_find_fold_erase:
  "um_find (fold um_erase xs m) a = (if a \<in> set xs then None else um_find m a)"
proof (induction xs arbitrary: m a)
  case Nil
  then show ?case by simp
next
  case (Cons x xs)
  show ?case
    by (cases "a = x") (simp_all add: Cons.IH um_erase_find um_erase_find_other)
qed

lemma fold_um_erase_keys:
  "distinct (map fst m) \<Longrightarrow> distinct (map fst (fold um_erase xs m))"
  by (induction xs arbitrary: m) (simp_all add: um_erase_keys)

lemma attach_all_result:
  assumes "code_entries_ok s es" and "JITCodeEntry_heap s entry = Some e"
    and "distinct as" and "\<forall>a\<in>set as. um_find (g_jit_code_entries s) a = None"
    and "s' = s\<lparr>JITCodeEntry_heap := (JITCodeEntry_heap s)(entry \<mapsto>
                   e\<lparr>ref_count := ref_count e + of_nat (length as)\<rparr>),
                g_jit_code_entries := map (\<lambda>a. (a, entry)) (rev as) @ g_jit_code_entries s\<rparr>"
  shows "attach_all k entry as s = Some s' \<and> code_entries_ok s' es"
  using assms
proof (induction as arbitrary: s e s')
  case Nil
  then show ?case by (simp add: map_upd_triv)
next
  case (Cons a as)
  define s1 where "s1 = s\<lparr>JITCodeEntry_heap := (JITCodeEntry_heap s)(entry \<mapsto> e\<lparr>ref_count := ref_count e + 1\<rparr>),
             g_jit_code_entries := um_emplace a entry (g_jit_code_entries s)\<rparr>"
  from Cons.prems(4) have absent: "um_find (g_jit_code_entries s) a = None" by simp
  then have cnt: "k \<longrightarrow> um_count (g_jit_code_entries s) a = 0"
    by (simp add: um_count_def um_find_def)
  from Increment_ok[OF Cons.prems(1,2) cnt s1_def]
  have inc: "IncrementJITCodeEntryRefcount k entry a s = Some s1" "code_entries_ok s1 es"
    by auto
  have idx1: "g_jit_code_entries s1 = (a, entry) # g_jit_code_entries s"
    using absent by (simp add: s1_def um_emplace_def um_find_def)
  have e1: "JITCodeEntry_heap s1 entry = Some (e\<lparr>ref_count := ref_count e + 1\<rparr>)"
    by (simp add: s1_def)
  have rest: "\<forall>b\<in>set as. um_find (g_jit_code_entries s1) b = None"
    using Cons.prems(3,4) by (auto simp: idx1 um_find_def)
  have s': "s' = s1\<lparr>JITCodeEntry_heap := (JITCodeEntry_heap s1)(entry \<mapsto>
                   (e\<lparr>ref_count := ref_count e + 1\<rparr>)\<lparr>ref_count := ref_count (e\<lparr>ref_count := ref_count e + 1\<rparr>) + of_nat (length as)\<rparr>),
                g_jit_code_entries := map (\<lambda>a. (a, entry)) (rev as) @ g_jit_code_entries s1\<rparr>"
    unfolding Cons.prems(5) idx1 by (simp add: s1_def ac_simps)
  from Cons.IH[OF inc(2) e1 _ rest s'] Cons.prems(3) inc(1) show ?case by simp
qed

lemma word32_pred_nonzero:
  assumes "1 < m" and "m \<le> 2 ^ 32"
  shows "(of_nat m :: 32 word) - 1 = of_nat (m - 1)" and "(of_nat (m - 1) :: 32 word) \<noteq> 0"
proof -
  from assms show "(of_nat m :: 32 word) - 1 = of_nat (m - 1)" by (simp add: of_nat_diff)
  from assms have "\<not> 2 ^ 32 dvd (m - 1)"
    by (auto dest!: dvd_imp_le)
  then show "(of_nat (m - 1) :: 32 word) \<noteq> 0"
    by (simp add: word_of_nat_eq_0_iff)
qed

lemma detach_all_partial:
  assumes "code_entries_ok s es" and "JITCodeEntry_heap s entry = Some e"
    and "ref_count e = of_nat m" and "length ds < m" and "m \<le> 2 ^ 32"
    and "distinct ds" and "\<forall>a\<in>set ds. um_find (g_jit_code_entries s) a = Some entry"
    and "s' = s\<lparr>JITCodeEntry_heap := (JITCodeEntry_heap s)(entry \<mapsto>
                   e\<lparr>ref_count := of_nat (m - length ds)\<rparr>),
                g_jit_code_entries := fold um_erase ds (g_jit_code_entries s)\<rparr>"
  shows "detach_all k entry ds s = Some s' \<and> code_entries_ok s' es"
  using assms
proof (induction ds arbitrary: s e s' m)
  case Nil
  then have "e\<lparr>ref_count := of_nat m\<rparr> = e" by simp
  with Nil show ?case by (simp add: map_upd_triv)
next
  case (Cons d ds)
  define s0 where "s0 = s\<lparr>JITCodeEntry_heap := (JITCodeEntry_heap s)(entry \<mapsto> e\<lparr>ref_count := ref_count e - 1\<rparr>)\<rparr>"
  define s1 where "s1 = s0\<lparr>g_jit_code_entries := um_erase d (g_jit_code_entries s)\<rparr>"
  from Cons.prems(4,5) have m: "1 < m" "m \<le> 2 ^ 32" by auto
  have rc: "ref_count e - 1 = of_nat (m - 1)" "ref_count e - 1 \<noteq> 0"
    using word32_pred_nonzero[OF m] Cons.prems(3) by auto
  from Cons.prems(7) have att: "k \<longrightarrow> um_find (g_jit_code_entries s) d = Some entry" by simp
  from Decrement_ok(2)[OF Cons.prems(1,2) att s0_def rc(2)]
  have dec: "DecrementJITCodeEntryRefcount k entry d s = Some s1" "code_entries_ok s1 es"
    by (auto simp: s1_def)
  have e1: "JITCodeEntry_heap s1 entry = Some (e\<lparr>ref_count := of_nat (m - 1)\<rparr>)"
    by (simp add: s1_def s0_def rc(1))
  have rest: "\<forall>a\<in>set ds. um_find (g_jit_code_entries s1) a = Some entry"
  proof
    fix a
    assume a: "a \<in> set ds"
    with Cons.prems(6) have "a \<noteq> d" by auto
    with a Cons.prems(7) show "um_find (g_jit_code_entries s1) a = Some entry"
      by (simp add: s1_def um_erase_find_other)
  qed
  have s': "s' = s1\<lparr>JITCodeEntry_heap := (JITCodeEntry_heap s1)(entry \<mapsto>
                   (e\<lparr>ref_count := of_nat (m - 1)\<rparr>)\<lparr>ref_count := of_nat (m - 1 - length ds)\<rparr>),
                g_jit_code_entries := fold um_erase ds (g_jit_code_entries s1)\<rparr>"
    unfolding Cons.prems(8) by (simp add: s1_def s0_def)
  have "length ds < m - 1" using Cons.prems(4) by simp
  from Cons.IH[OF dec(2) e1 _ this _ _ rest s'] m Cons.prems(6) dec(1)
  show ?case by simp
qed

lemma detach_all_append:
  "detach_all k entry (xs @ ys) s =
     (case detach_all k entry xs s of None \<Rightarrow> None | Some s' \<Rightarrow> detach_all k entry ys s')"
  by (induction xs arbitrary: s) (auto split: option.splits)

lemma fold_um_erase_filter: "fold um_erase xs m = filter (\<lambda>kv. fst kv \<notin> set xs) m"
proof (induction xs arbitrary: m)
  case Nil
  then show ?case by simp
next
  case (Cons x xs)
  have "fold um_erase (x # xs) m = filter (\<lambda>kv. fst kv \<notin> set xs) (filter (\<lambda>kv. fst kv \<noteq> x) m)"
    by (simp add: Cons.IH um_erase_def)
  also have "\<dots> = filter (\<lambda>kv. fst kv \<notin> set (x # xs)) m"
    by (auto intro: filter_cong)
  finally show ?case .
qed

lemma detach_last:
  assumes ok: "code_entries_ok s es" and e: "JITCodeEntry_heap s entry = Some e"
    and rc: "ref_count e = 1"
    and att: "um_find (g_jit_code_entries s) d = Some entry"
  shows "\<exists>s' m. detach_all k entry [d] s = Some s' \<and>
     code_entries_ok s' (remove1 entry es) \<and>
     JITCodeEntry_heap s' entry = None \<and>
     uint8_heap s' = (uint8_heap s)(symfile_addr e := None) \<and>
     g_jit_code_entries s' = um_erase d (g_jit_code_entries s) \<and>
     g_jit_debug_mem_usage s' = g_jit_debug_mem_usage s - (sizeof_JITCodeEntry + symfile_size e) \<and>
     trace s' = trace s @ [(RegisterCodeCalled, m)] \<and>
     relevant_entry (jit_debug_descriptor m) = entry \<and>
     action_flag (jit_debug_descriptor m) = JIT_UNREGISTER_FN"
proof -
  define s1 where "s1 = s\<lparr>JITCodeEntry_heap := (JITCodeEntry_heap s)(entry \<mapsto> e\<lparr>ref_count := ref_count e - 1\<rparr>)\<rparr>"
  from att have att': "k \<longrightarrow> um_find (g_jit_code_entries s) d = Some entry" by simp
  from rc have zero: "ref_count e - 1 = 0" by simp
  note dec = Decrement_ok[OF ok e att' s1_def]
  from dec(3)[OF zero] obtain s2 where
    s2: "DeleteJITCodeEntry entry s1 = Some s2"
      "DecrementJITCodeEntryRefcount k entry d s =
         Some (s2\<lparr>g_jit_code_entries := um_erase d (g_jit_code_entries s)\<rparr>)"
      "code_entries_ok (s2\<lparr>g_jit_code_entries := um_erase d (g_jit_code_entries s)\<rparr>) (remove1 entry es)"
    by blast
  from e have mem: "entry \<in> set es"
    using code_entries_ok_live(1)[OF ok, of entry] by auto
  have e1: "JITCodeEntry_heap s1 entry = Some (e\<lparr>ref_count := ref_count e - 1\<rparr>)"
    by (simp add: s1_def)
  from Delete_ok[OF dec(1) mem] s2(1) e1 obtain m where
    d: "JITCodeEntry_heap s2 entry = None"
      "uint8_heap s2 = (uint8_heap s1)(symfile_addr e := None)"
      "g_jit_debug_mem_usage s2 = g_jit_debug_mem_usage s1 - (sizeof_JITCodeEntry + symfile_size e)"
      "action_flag (jit_debug_descriptor s2) = JIT_UNREGISTER_FN"
      "relevant_entry (jit_debug_descriptor s2) = entry"
      "trace s2 = trace s1 @ [(RegisterCodeCalled, m)]"
      "m = (memory.truncate s2)\<lparr>JITCodeEntry_heap := (JITCodeEntry_heap s2)(entry \<mapsto> e\<lparr>ref_count := ref_count e - 1\<rparr>),
                               uint8_heap := uint8_heap s1\<rparr>"
    by auto
  have m: "relevant_entry (jit_debug_descriptor m) = entry"
    "action_flag (jit_debug_descriptor m) = JIT_UNREGISTER_FN"
    using d(4,5) by (simp_all add: d(7) memory.defs)
  show ?thesis
    using s2(2,3) d(1,2,3,6) m
    by (intro exI[of _ "s2\<lparr>g_jit_code_entries := um_erase d (g_jit_code_entries s)\<rparr>"] exI[of _ m])
       (simp add: s1_def)
qed

lemma lifecycle:
  assumes ok: "code_entries_ok s es"
    and k: "k \<longrightarrow> symfile \<noteq> []"
    and nz: "new_array \<noteq> 0" "new_entry \<noteq> 0"
    and fresh: "uint8_heap s new_array = None" "JITCodeEntry_heap s new_entry = None"
    and addrs: "addrs \<noteq> []" "distinct addrs" "length addrs \<le> 2 ^ 32"
    and absent: "\<forall>a\<in>set addrs. um_find (g_jit_code_entries s) a = None"
    and ds: "distinct ds" "set ds = set addrs"
  shows "\<exists>s1 s2. CreateJITCodeEntry k symfile new_array new_entry s = Some (new_entry, s1) \<and>
     attach_all k new_entry addrs s1 = Some s2 \<and>
     code_entries_ok s1 (new_entry # es) \<and>
     g_jit_debug_mem_usage s1 =
       g_jit_debug_mem_usage s + (sizeof_JITCodeEntry + of_nat (length symfile)) \<and>
     g_jit_code_entries s1 = g_jit_code_entries s \<and>
     code_entries_ok s2 (new_entry # es) \<and>
     g_jit_code_entries s2 = map (\<lambda>a. (a, new_entry)) (rev addrs) @ g_jit_code_entries s \<and>
     g_jit_debug_mem_usage s2 = g_jit_debug_mem_usage s1 \<and>
     trace s2 = trace s1 \<and>
     (\<forall>j<length ds. \<exists>s3. detach_all k new_entry (take j ds) s2 = Some s3 \<and>
        code_entries_ok s3 (new_entry # es) \<and>
        JITCodeEntry_heap s3 new_entry = Some
          \<lparr>jit_next = first_entry (jit_debug_descriptor s), jit_prev = 0,
           symfile_addr = new_array, symfile_size = of_nat (length symfile),
           ref_count = of_nat (length ds - j)\<rparr> \<and>
        uint8_heap s3 new_array = Some symfile \<and>
        trace s3 = trace s2 \<and>
        g_jit_debug_mem_usage s3 = g_jit_debug_mem_usage s2 \<and>
        g_jit_code_entries s3 = fold um_erase (take j ds) (g_jit_code_entries s2)) \<and>
     (\<exists>s4 m. detach_all k new_entry ds s2 = Some s4 \<and>
        code_entries_ok s4 es \<and>
        JITCodeEntry_heap s4 new_entry = None \<and>
        uint8_heap s4 = uint8_heap s \<and>
        g_jit_code_entries s4 = g_jit_code_entries s \<and>
        g_jit_debug_mem_usage s4 = g_jit_debug_mem_usage s \<and>
        trace s4 = trace s2 @ [(RegisterCodeCalled, m)] \<and>
        relevant_entry (jit_debug_descriptor m) = new_entry \<and>
        action_flag (jit_debug_descriptor m) = JIT_UNREGISTER_FN)"
proof -
  define n where "n = length addrs"
  define E where "E = \<lparr>jit_next = first_entry (jit_debug_descriptor s), jit_prev = 0,
     symfile_addr = new_array, symfile_size = of_nat (length symfile), ref_count = (0::32 word)\<rparr>"
  from Create_ok[OF ok k nz fresh] obtain s1 where
    s1: "CreateJITCodeEntry k symfile new_array new_entry s = Some (new_entry, s1)"
      "code_entries_ok s1 (new_entry # es)"
      "JITCodeEntry_heap s1 new_entry = Some E"
      "uint8_heap s1 = (uint8_heap s)(new_array \<mapsto> symfile)"
      "g_jit_debug_mem_usage s1 =
         g_jit_debug_mem_usage s + (sizeof_JITCodeEntry + of_nat (length symfile))"
      "g_jit_code_entries s1 = g_jit_code_entries s"
    unfolding E_def by blast
  define s2 where "s2 = s1\<lparr>JITCodeEntry_heap := (JITCodeEntry_heap s1)(new_entry \<mapsto>
                   E\<lparr>ref_count := ref_count E + of_nat (length addrs)\<rparr>),
                g_jit_code_entries := map (\<lambda>a. (a, new_entry)) (rev addrs) @ g_jit_code_entries s1\<rparr>"
  from absent have absent1: "\<forall>a\<in>set addrs. um_find (g_jit_code_entries s1) a = None"
    by (simp add: s1(6))
  from attach_all_result[OF s1(2,3) addrs(2) absent1 s2_def]
  have s2: "attach_all k new_entry addrs s1 = Some s2" "code_entries_ok s2 (new_entry # es)"
    by auto
  define E2 where "E2 = E\<lparr>ref_count := of_nat n\<rparr>"
  have e2: "JITCodeEntry_heap s2 new_entry = Some E2" "ref_count E2 = of_nat n"
    by (simp_all add: s2_def E2_def E_def n_def)
  have idx2: "g_jit_code_entries s2 = map (\<lambda>a. (a, new_entry)) (rev addrs) @ g_jit_code_entries s"
    by (simp add: s2_def s1(6))
  have len: "length ds = n"
    using ds addrs(2) unfolding n_def by (metis distinct_card)
  have att2: "um_find (g_jit_code_entries s2) a = Some new_entry" if "a \<in> set ds" for a
    using that ds(2) by (simp add: idx2 um_find_attached)
  have n: "0 < n" "n \<le> 2 ^ 32" using addrs by (simp_all add: n_def)
  have part: "detach_all k new_entry (take j ds) s2 =
        Some (s2\<lparr>JITCodeEntry_heap := (JITCodeEntry_heap s2)(new_entry \<mapsto>
                   E2\<lparr>ref_count := of_nat (n - length (take j ds))\<rparr>),
                g_jit_code_entries := fold um_erase (take j ds) (g_jit_code_entries s2)\<rparr>) \<and>
      code_entries_ok (s2\<lparr>JITCodeEntry_heap := (JITCodeEntry_heap s2)(new_entry \<mapsto>
                   E2\<lparr>ref_count := of_nat (n - length (take j ds))\<rparr>),
                g_jit_code_entries := fold um_erase (take j ds) (g_jit_code_entries s2)\<rparr>)
        (new_entry # es)"
    if "j < n" for j
  proof (rule detach_all_partial[OF s2(2) e2 _ n(2) _ _ refl])
    show "length (take j ds) < n" using that len by simp
    show "distinct (take j ds)" using ds(1) by simp
    show "\<forall>a\<in>set (take j ds). um_find (g_jit_code_entries s2) a = Some new_entry"
      using att2 by (auto dest: in_set_takeD)
  qed
  have partial: "\<exists>s3. detach_all k new_entry (take j ds) s2 = Some s3 \<and>
        code_entries_ok s3 (new_entry # es) \<and>
        JITCodeEntry_heap s3 new_entry = Some (E\<lparr>ref_count := of_nat (length ds - j)\<rparr>) \<and>
        uint8_heap s3 new_array = Some symfile \<and>
        trace s3 = trace s2 \<and>
        g_jit_debug_mem_usage s3 = g_jit_debug_mem_usage s2 \<and>
        g_jit_code_entries s3 = fold um_erase (take j ds) (g_jit_code_entries s2)"
    if "j < length ds" for j
  proof -
    from that len have j: "j < n" "length (take j ds) = j" by simp_all
    from part[OF j(1)] show ?thesis
      unfolding j(2)
      by (intro exI[of _ "s2\<lparr>JITCodeEntry_heap := (JITCodeEntry_heap s2)(new_entry \<mapsto>
                   E2\<lparr>ref_count := of_nat (n - j)\<rparr>),
                g_jit_code_entries := fold um_erase (take j ds) (g_jit_code_entries s2)\<rparr>"])
         (simp add: E2_def len s2_def s1(4))
  qed
  have full: "\<exists>s4 m. detach_all k new_entry ds s2 = Some s4 \<and>
        code_entries_ok s4 es \<and>
        JITCodeEntry_heap s4 new_entry = None \<and>
        uint8_heap s4 = uint8_heap s \<and>
        g_jit_code_entries s4 = g_jit_code_entries s \<and>
        g_jit_debug_mem_usage s4 = g_jit_debug_mem_usage s \<and>
        trace s4 = trace s2 @ [(RegisterCodeCalled, m)] \<and>
        relevant_entry (jit_debug_descriptor m) = new_entry \<and>
        action_flag (jit_debug_descriptor m) = JIT_UNREGISTER_FN"
  proof -
    from n len have nonempty: "ds \<noteq> []" by auto
    define d where "d = last ds"
    define s3 where "s3 = s2\<lparr>JITCodeEntry_heap := (JITCodeEntry_heap s2)(new_entry \<mapsto>
                   E2\<lparr>ref_count := of_nat (n - length (take (n - 1) ds))\<rparr>),
                g_jit_code_entries := fold um_erase (take (n - 1) ds) (g_jit_code_entries s2)\<rparr>"
    have split: "ds = take (n - 1) ds @ [d]"
      using nonempty len by (metis d_def butlast_conv_take snoc_eq_iff_butlast)
    from n have "n - 1 < n" by simp
    from part[OF this] have s3: "detach_all k new_entry (take (n - 1) ds) s2 = Some s3"
      "code_entries_ok s3 (new_entry # es)"
      by (simp_all add: s3_def)
    have lt: "length (take (n - 1) ds) = n - 1" using len by simp
    have one: "n - length (take (n - 1) ds) = 1" using n lt by simp
    have e3: "JITCodeEntry_heap s3 new_entry = Some (E2\<lparr>ref_count := 1\<rparr>)"
      unfolding s3_def one by simp
    have d_ds: "d \<in> set ds" "d \<notin> set (take (n - 1) ds)"
      using nonempty ds(1) split
      by (simp add: d_def, metis distinct_append disjoint_iff list.set_intros(1))
    have att3: "um_find (g_jit_code_entries s3) d = Some new_entry"
      using d_ds att2 by (simp add: s3_def um_find_fold_erase)
    from detach_last[OF s3(2) e3 _ att3, of k] obtain s4 m where
      s4: "detach_all k new_entry [d] s3 = Some s4"
        "code_entries_ok s4 (remove1 new_entry (new_entry # es))"
        "JITCodeEntry_heap s4 new_entry = None"
        "uint8_heap s4 = (uint8_heap s3)(symfile_addr (E2\<lparr>ref_count := 1\<rparr>) := None)"
        "g_jit_code_entries s4 = um_erase d (g_jit_code_entries s3)"
        "g_jit_debug_mem_usage s4 = g_jit_debug_mem_usage s3 -
           (sizeof_JITCodeEntry + symfile_size (E2\<lparr>ref_count := 1\<rparr>))"
        "trace s4 = trace s3 @ [(RegisterCodeCalled, m)]"
        "relevant_entry (jit_debug_descriptor m) = new_entry"
        "action_flag (jit_debug_descriptor m) = JIT_UNREGISTER_FN"
      by auto
    have run: "detach_all k new_entry ds s2 = Some s4"
      using s3(1) s4(1) by (subst split) (simp add: detach_all_append)
    have heap: "uint8_heap s4 = uint8_heap s"
      using fresh(1) by (auto simp: s4(4) s3_def s2_def s1(4) E2_def E_def)
    have "g_jit_code_entries s4 = fold um_erase (take (n - 1) ds @ [d]) (g_jit_code_entries s2)"
      by (simp add: s4(5) s3_def)
    also have "\<dots> = fold um_erase ds (g_jit_code_entries s2)"
      using split by simp
    also have "\<dots> = filter (\<lambda>kv. fst kv \<notin> set ds) (g_jit_code_entries s)"
      unfolding fold_um_erase_filter idx2 using ds(2) by (simp add: filter_empty_conv)
    also have "\<dots> = g_jit_code_entries s"
    proof (intro filter_True ballI)
      fix kv assume "kv \<in> set (g_jit_code_entries s)"
      then have "um_find (g_jit_code_entries s) (fst kv) \<noteq> None"
        unfolding um_find_def by (metis map_of_eq_None_iff image_eqI)
      with absent ds(2) show "fst kv \<notin> set ds" by auto
    qed
    finally have idx: "g_jit_code_entries s4 = g_jit_code_entries s" .
    have usage: "g_jit_debug_mem_usage s4 = g_jit_debug_mem_usage s"
      by (simp add: s4(6) s3_def s2_def s1(5) E2_def E_def)
    have tr: "trace s4 = trace s2 @ [(RegisterCodeCalled, m)]"
      by (simp add: s4(7) s3_def)
    from run s4(2,3,8,9) heap idx usage tr show ?thesis by auto
  qed
  have misc: "g_jit_debug_mem_usage s2 = g_jit_debug_mem_usage s1" "trace s2 = trace s1"
    by (simp_all add: s2_def)
  from s1(1,2,5,6) s2 idx2 misc partial full show ?thesis
    unfolding E_def by (intro exI[of _ s1] exI[of _ s2]) simp
qed

lemma many_addresses_distinct: "distinct many_addresses"
proof -
  have "inj_on (of_nat :: nat \<Rightarrow> 64 word) (set [1..<4294967298])"
    by (rule inj_onI) (simp add: word_of_nat_eq_iff take_bit_nat_eq_self)
  then show ?thesis by (simp add: many_addresses_def distinct_map)
qed

lemma many_addresses_mem: "1 \<in> set many_addresses" "2 \<in> set many_addresses"
proof -
  have n: "(1::nat) \<in> set [1..<4294967298]" "(2::nat) \<in> set [1..<4294967298]" by simp_all
  have "(of_nat 1 :: 64 word) \<in> of_nat ` set [1..<4294967298]"
    "(of_nat 2 :: 64 word) \<in> of_nat ` set [1..<4294967298]"
    by (rule imageI[OF n(1)], rule imageI[OF n(2)])
  then show "1 \<in> set many_addresses" "2 \<in> set many_addresses"
    by (simp_all add: many_addresses_def)
qed

section \<open>More about the invariants\<close>

text \<open>
  Under the invariant every live code entry has a live blob of the size recorded in the
  entry, the number of keys of an index is its size, and a file address has exactly one
  entry in the list when it is a key of the index and none otherwise.
\<close>

lemma code_entries_ok_blob:
  assumes "code_entries_ok s es" and "JITCodeEntry_heap s entry = Some e"
  shows "symfile_addr e \<noteq> 0 \<and>
     (\<exists>bytes. uint8_heap s (symfile_addr e) = Some bytes \<and> symfile_size e = of_nat (length bytes))"
proof -
  from assms have mem: "entry \<in> set es"
    using code_entries_ok_live(1)[OF assms(1), of entry] by simp
  with assms(1) have "blob_of (JITCodeEntry_heap s) entry \<noteq> 0"
    "has_blob (uint8_heap s) (JITCodeEntry_heap s) entry"
    by (auto simp: code_entries_ok_def)
  with assms(2) show ?thesis
    by (auto simp: has_blob_def blob_of_def accounted_def split: option.splits)
qed

lemma code_entries_ok_blob_sizes:
  assumes "code_entries_ok s es"
  shows "sum_list (map (accounted (JITCodeEntry_heap s)) es) =
     sum_list (map (\<lambda>a. sizeof_JITCodeEntry +
        of_nat (length (the (uint8_heap s (blob_of (JITCodeEntry_heap s) a))))) es)"
proof -
  from assms have "\<forall>a\<in>set es. has_blob (uint8_heap s) (JITCodeEntry_heap s) a"
    by (simp add: code_entries_ok_def)
  then have "\<forall>a\<in>set es. accounted (JITCodeEntry_heap s) a = sizeof_JITCodeEntry +
        of_nat (length (the (uint8_heap s (blob_of (JITCodeEntry_heap s) a))))"
    by (auto simp: has_blob_def split: option.splits)
  then show ?thesis by (metis (mono_tags, lifting) map_eq_conv)
qed

lemma um_size_card:
  assumes "distinct (map fst m)"
  shows "card (dom (um_find m)) = um_size m"
proof -
  have "um_find m = map_of m" by (rule ext) (simp add: um_find_def)
  then have "dom (um_find m) = set (map fst m)"
    by (simp add: dom_map_of_conv_image_fst)
  moreover from assms have "card (set (map fst m)) = length (map fst m)"
    by (rule distinct_card)
  ultimately show ?thesis by (simp add: um_size_def)
qed

lemma filter_key_unique:
  "distinct (map fst m) \<Longrightarrow>
   filter (\<lambda>kv. fst kv = k) m = (case map_of m k of None \<Rightarrow> [] | Some v \<Rightarrow> [(k, v)])"
proof (induction m)
  case Nil
  then show ?case by simp
next
  case (Cons kv m)
  show ?case
  proof (cases "fst kv = k")
    case True
    with Cons.prems have "k \<notin> fst ` set m" by auto
    then have "filter (\<lambda>kv. fst kv = k) m = []"
      by (auto simp: filter_empty_conv)
    with True show ?thesis by (cases kv) auto
  next
    case False
    with Cons show ?thesis by (cases kv) auto
  qed
qed

lemma file_entries_ok_entries_for:
  assumes "file_entries_ok s fs"
  shows "entries_for (DEXFileEntry_heap s) k fs =
     (case um_find (g_dexfile_entries s) k of None \<Rightarrow> [] | Some entry \<Rightarrow> [entry])"
proof -
  from assms have vals: "map snd (g_dexfile_entries s) = fs"
    and keys: "distinct (map fst (g_dexfile_entries s))"
    and holds: "\<forall>kv\<in>set (g_dexfile_entries s).
        map_option dexfile (DEXFileEntry_heap s (snd kv)) = Some (fst kv)"
    by (auto simp: file_entries_ok_def)
  have "entries_for (DEXFileEntry_heap s) k fs =
      map snd (filter (\<lambda>kv. map_option dexfile (DEXFileEntry_heap s (snd kv)) = Some k)
        (g_dexfile_entries s))"
    unfolding entries_for_def vals[symmetric] by (simp add: filter_map comp_def)
  also have "filter (\<lambda>kv. map_option dexfile (DEXFileEntry_heap s (snd kv)) = Some k)
        (g_dexfile_entries s) = filter (\<lambda>kv. fst kv = k) (g_dexfile_entries s)"
    using holds by (intro filter_cong refl) auto
  also have "\<dots> = (case map_of (g_dexfile_entries s) k of None \<Rightarrow> [] | Some v \<Rightarrow> [(k, v)])"
    using keys by (rule filter_key_unique)
  finally show ?thesis by (simp add: um_find_def split: option.splits)
qed

lemma file_entries_ok_live:
  assumes "file_entries_ok s fs"
  shows "(DEXFileEntry_heap s a \<noteq> None) = (a \<in> set fs)"
proof -
  from assms have "dom (DEXFileEntry_heap s) = set fs" by (simp add: file_entries_ok_def)
  then show ?thesis by (auto simp: dom_def)
qed

lemma debugger_view_unchanged_lists:
  assumes "debugger_view_unchanged s s'"
  shows "code_list s' es = code_list s es" and "file_list s' fs = file_list s fs"
proof -
  from assms have eq: "map_option (ref_count_update (\<lambda>r. 0)) (JITCodeEntry_heap s' p) =
          map_option (ref_count_update (\<lambda>r. 0)) (JITCodeEntry_heap s p)" for p
    by (simp add: debugger_view_unchanged_def)
  have "map_option jit_next (JITCodeEntry_heap s' p) = map_option jit_next (JITCodeEntry_heap s p)
      \<and> map_option jit_prev (JITCodeEntry_heap s' p) = map_option jit_prev (JITCodeEntry_heap s p)" for p
  proof -
    have "map_option jit_next (map_option (ref_count_update (\<lambda>r. 0)) x) = map_option jit_next x"
      "map_option jit_prev (map_option (ref_count_update (\<lambda>r. 0)) x) = map_option jit_prev x"
      for x :: "JITCodeEntry option"
      by (cases x; simp)+
    with eq[of p] show ?thesis by metis
  qed
  then have "field_map jit_next (JITCodeEntry_heap s') = field_map jit_next (JITCodeEntry_heap s)"
    "field_map jit_prev (JITCodeEntry_heap s') = field_map jit_prev (JITCodeEntry_heap s)"
    by (auto simp: field_map_def intro!: ext)
  with assms show "code_list s' es = code_list s es"
    by (simp add: code_list_def debugger_view_unchanged_def)
  from assms show "file_list s' fs = file_list s fs"
    by (simp add: file_list_def debugger_view_unchanged_def)
qed

subsection \<open>The example states\<close>

lemma example_created:
  "CreateJITCodeEntry True [127, 69, 76, 70] 1280 256 initial_state = Some (256, example_created)"
  "code_entries_ok example_created [256]"
  "file_entries_ok example_created []"
  "JITCodeEntry_heap example_created 256 =
     Some \<lparr>jit_next = 0, jit_prev = 0, symfile_addr = 1280, symfile_size = 4, ref_count = 0\<rparr>"
  "g_jit_code_entries example_created = []"
  "native_debug_interface_lock example_created = None"
proof -
  have k: "True \<longrightarrow> [127, 69, 76, 70 :: uint8_t] \<noteq> []" by simp
  have fresh: "uint8_heap initial_state 1280 = None" "JITCodeEntry_heap initial_state 256 = None"
    by (simp_all add: initial_state_def)
  from Create_ok[OF initial_state_ok(1) k _ _ fresh] obtain s' where
    s': "CreateJITCodeEntry True [127, 69, 76, 70] 1280 256 initial_state = Some (256, s')"
      "code_entries_ok s' [256]"
      "JITCodeEntry_heap s' 256 = Some
        \<lparr>jit_next = first_entry (jit_debug_descriptor initial_state), jit_prev = 0,
         symfile_addr = 1280, symfile_size = of_nat (length [127, 69, 76, 70 :: uint8_t]),
         ref_count = 0\<rparr>"
      "g_jit_code_entries s' = g_jit_code_entries initial_state"
      "native_debug_interface_lock s' = native_debug_interface_lock initial_state"
      "art_debug_dexfiles s' = art_debug_dexfiles initial_state"
      "g_dexfile_entries s' = g_dexfile_entries initial_state"
      "DEXFileEntry_heap s' = DEXFileEntry_heap initial_state"
    by auto
  have eq: "example_created = s'" by (simp add: example_created_def s'(1))
  show "CreateJITCodeEntry True [127, 69, 76, 70] 1280 256 initial_state = Some (256, example_created)"
    "code_entries_ok example_created [256]"
    unfolding eq by (fact s'(1), fact s'(2))
  show "file_entries_ok example_created []"
    unfolding eq using initial_state_ok(2) file_entries_ok_frame[OF s'(6,8,7), of "[]"] by simp
  show "JITCodeEntry_heap example_created 256 =
     Some \<lparr>jit_next = 0, jit_prev = 0, symfile_addr = 1280, symfile_size = 4, ref_count = 0\<rparr>"
    unfolding eq by (simp add: s'(3) initial_state_def)
  show "g_jit_code_entries example_created = []"
    "native_debug_interface_lock example_created = None"
    unfolding eq by (simp_all add: s'(4,5) initial_state_def)
qed

lemma example_attached:
  "IncrementJITCodeEntryRefcount True 256 4096 example_created = Some example_attached"
  "code_entries_ok example_attached [256]"
  "JITCodeEntry_heap example_attached 256 =
     Some \<lparr>jit_next = 0, jit_prev = 0, symfile_addr = 1280, symfile_size = 4, ref_count = 1\<rparr>"
  "g_jit_code_entries example_attached = [(4096, 256)]"
proof -
  have cnt: "True \<longrightarrow> um_count (g_jit_code_entries example_created) 4096 = 0"
    by (simp add: example_created(5) um_count_def)
  from Increment_ok[OF example_created(2,4) cnt refl]
  have r: "IncrementJITCodeEntryRefcount True 256 4096 example_created =
      Some (example_created\<lparr>JITCodeEntry_heap := (JITCodeEntry_heap example_created)(256 \<mapsto>
        \<lparr>jit_next = 0, jit_prev = 0, symfile_addr = 1280, symfile_size = 4, ref_count = 0\<rparr>
          \<lparr>ref_count := ref_count \<lparr>jit_next = 0, jit_prev = 0, symfile_addr = 1280,
             symfile_size = 4, ref_count = 0 :: 32 word\<rparr> + 1\<rparr>),
        g_jit_code_entries := um_emplace 4096 256 (g_jit_code_entries example_created)\<rparr>)"
    and ok: "code_entries_ok (example_created\<lparr>JITCodeEntry_heap := (JITCodeEntry_heap example_created)(256 \<mapsto>
        \<lparr>jit_next = 0, jit_prev = 0, symfile_addr = 1280, symfile_size = 4, ref_count = 0\<rparr>
          \<lparr>ref_count := ref_count \<lparr>jit_next = 0, jit_prev = 0, symfile_addr = 1280,
             symfile_size = 4, ref_count = 0 :: 32 word\<rparr> + 1\<rparr>),
        g_jit_code_entries := um_emplace 4096 256 (g_jit_code_entries example_created)\<rparr>) [256]"
    by auto
  show "IncrementJITCodeEntryRefcount True 256 4096 example_created = Some example_attached"
    by (simp add: example_attached_def r)
  show "code_entries_ok example_attached [256]"
    using ok by (simp add: example_attached_def r)
  show "JITCodeEntry_heap example_attached 256 =
     Some \<lparr>jit_next = 0, jit_prev = 0, symfile_addr = 1280, symfile_size = 4, ref_count = 1\<rparr>"
    by (simp add: example_attached_def r)
  show "g_jit_code_entries example_attached = [(4096, 256)]"
    by (simp add: example_attached_def r example_created(5) um_emplace_def)
qed

lemma example_attached_twice:
  "IncrementJITCodeEntryRefcount True 256 8192 example_attached = Some example_attached_twice"
  "code_entries_ok example_attached_twice [256]"
  "JITCodeEntry_heap example_attached_twice 256 =
     Some \<lparr>jit_next = 0, jit_prev = 0, symfile_addr = 1280, symfile_size = 4, ref_count = 2\<rparr>"
  "g_jit_code_entries example_attached_twice = [(8192, 256), (4096, 256)]"
proof -
  have cnt: "True \<longrightarrow> um_count (g_jit_code_entries example_attached) 8192 = 0"
    by (simp add: example_attached(4) um_count_def)
  from Increment_ok[OF example_attached(2,3) cnt refl]
  have r: "IncrementJITCodeEntryRefcount True 256 8192 example_attached =
      Some (example_attached\<lparr>JITCodeEntry_heap := (JITCodeEntry_heap example_attached)(256 \<mapsto>
        \<lparr>jit_next = 0, jit_prev = 0, symfile_addr = 1280, symfile_size = 4, ref_count = 1\<rparr>
          \<lparr>ref_count := ref_count \<lparr>jit_next = 0, jit_prev = 0, symfile_addr = 1280,
             symfile_size = 4, ref_count = 1 :: 32 word\<rparr> + 1\<rparr>),
        g_jit_code_entries := um_emplace 8192 256 (g_jit_code_entries example_attached)\<rparr>)"
    and ok: "code_entries_ok (example_attached\<lparr>JITCodeEntry_heap := (JITCodeEntry_heap example_attached)(256 \<mapsto>
        \<lparr>jit_next = 0, jit_prev = 0, symfile_addr = 1280, symfile_size = 4, ref_count = 1\<rparr>
          \<lparr>ref_count := ref_count \<lparr>jit_next = 0, jit_prev = 0, symfile_addr = 1280,
             symfile_size = 4, ref_count = 1 :: 32 word\<rparr> + 1\<rparr>),
        g_jit_code_entries := um_emplace 8192 256 (g_jit_code_entries example_attached)\<rparr>) [256]"
    by auto
  show "IncrementJITCodeEntryRefcount True 256 8192 example_attached = Some example_attached_twice"
    by (simp add: example_attached_twice_def r)
  show "code_entries_ok example_attached_twice [256]"
    using ok by (simp add: example_attached_twice_def r)
  show "JITCodeEntry_heap example_attached_twice 256 =
     Some \<lparr>jit_next = 0, jit_prev = 0, symfile_addr = 1280, symfile_size = 4, ref_count = 2\<rparr>"
    by (simp add: example_attached_twice_def r)
  show "g_jit_code_entries example_attached_twice = [(8192, 256), (4096, 256)]"
    by (simp add: example_attached_twice_def r example_attached(4) um_emplace_def)
qed

lemma example_files:
  "run True [RegisterFile 1 160 16, RegisterFile 1 176 32, RegisterFile 1 192 48] initial_state =
     Some example_files"
  "file_entries_ok example_files [48, 32, 16]"
  "code_entries_ok example_files []"
  "g_dexfile_entries example_files = [(192, 48), (176, 32), (160, 16)]"
  "native_debug_interface_lock example_files = None"
proof -
  have i: "native_debug_interface_lock initial_state = None"
    "um_count (g_dexfile_entries initial_state) 160 = 0" "DEXFileEntry_heap initial_state 16 = None"
    by (simp_all add: initial_state_def um_count_def)
  from Register_ok[OF initial_state_ok(2) i(1,2) _ i(3), of 1] obtain s1 where
    s1: "RegisterDexFileForNative 1 160 16 initial_state = Some s1"
      "file_entries_ok s1 [16]" "g_dexfile_entries s1 = [(160, 16)]"
      "native_debug_interface_lock s1 = None"
      "JITCodeEntry_heap s1 = JITCodeEntry_heap initial_state"
    by (auto simp: initial_state_def)
  have f1: "um_count (g_dexfile_entries s1) 176 = 0" "DEXFileEntry_heap s1 32 = None"
    using file_entries_ok_live[OF s1(2), of 32] by (simp_all add: s1(3) um_count_def)
  from Register_ok[OF s1(2,4) f1(1) _ f1(2), of 1] obtain s2 where
    s2: "RegisterDexFileForNative 1 176 32 s1 = Some s2"
      "file_entries_ok s2 [32, 16]" "g_dexfile_entries s2 = [(176, 32), (160, 16)]"
      "native_debug_interface_lock s2 = None"
      "JITCodeEntry_heap s2 = JITCodeEntry_heap s1"
    by (auto simp: s1(3))
  have f2: "um_count (g_dexfile_entries s2) 192 = 0" "DEXFileEntry_heap s2 48 = None"
    using file_entries_ok_live[OF s2(2), of 48] by (simp_all add: s2(3) um_count_def)
  from Register_ok[OF s2(2,4) f2(1) _ f2(2), of 1] obtain s3 where
    s3: "RegisterDexFileForNative 1 192 48 s2 = Some s3"
      "file_entries_ok s3 [48, 32, 16]" "g_dexfile_entries s3 = [(192, 48), (176, 32), (160, 16)]"
      "native_debug_interface_lock s3 = None"
      "JITCodeEntry_heap s3 = JITCodeEntry_heap s2"
    by (auto simp: s2(3))
  have r: "run True [RegisterFile 1 160 16, RegisterFile 1 176 32, RegisterFile 1 192 48] initial_state = Some s3"
    using s1(1) s2(1) s3(1) i(3) f1(2) f2(2) by simp
  then have eq: "example_files = s3" by (simp add: example_files_def)
  from run_ok[OF initial_state_ok r] obtain es where ok: "code_entries_ok s3 es" by blast
  then have "set es = dom (JITCodeEntry_heap s3)" by (simp add: code_entries_ok_def)
  then have "es = []" by (simp add: s3(5) s2(5) s1(5) initial_state_def)
  with ok have c: "code_entries_ok s3 []" by simp
  show "run True [RegisterFile 1 160 16, RegisterFile 1 176 32, RegisterFile 1 192 48] initial_state =
     Some example_files"
    "file_entries_ok example_files [48, 32, 16]"
    "code_entries_ok example_files []"
    "g_dexfile_entries example_files = [(192, 48), (176, 32), (160, 16)]"
    "native_debug_interface_lock example_files = None"
    unfolding eq by (fact r, fact s3(2), fact c, fact s3(3), fact s3(4))
qed

section \<open>Sequences of list operations\<close>

text \<open>
  Creation and deletion leave the blob pointers of the other entries alone; the four
  list operations keep a state in agreement with the pairs that are expected of them,
  so a sequence in \<open>list_calls\<close> returns in a state that agrees with the expected
  lists.
\<close>

lemma Delete_blobs:
  assumes "DeleteJITCodeEntry entry s = Some s'" and "a \<noteq> entry"
  shows "blob_of (JITCodeEntry_heap s') a = blob_of (JITCodeEntry_heap s) a"
  using assms unfolding DeleteJITCodeEntry_def
  by (auto simp: jit_heap_defs Let_def jit_debug_register_code_ptr_def observe_def blob_of_def
      split: Option.bind_splits if_splits option.splits)

lemma Create_blobs:
  assumes "CreateJITCodeEntry k symfile new_array new_entry s = Some (r, s')"
    and "a \<noteq> new_entry"
  shows "blob_of (JITCodeEntry_heap s') a = blob_of (JITCodeEntry_heap s) a"
  using assms unfolding CreateJITCodeEntry_def
  by (auto simp: jit_heap_defs Let_def jit_debug_register_code_ptr_def observe_def blob_of_def
      DCHECK_def CHECK_def
      split: Option.bind_splits if_splits option.splits)

lemma lists_are_ok:
  assumes "code_entries_ok s es" and "file_entries_ok s fs"
  shows "lists_are s es fs"
proof -
  from assms(1) have cl: "code_list s es" "dom (JITCodeEntry_heap s) = set es"
    by (auto simp: code_entries_ok_def)
  from assms(2) have fl: "file_list s fs" "dom (DEXFileEntry_heap s) = set fs"
    by (auto simp: file_entries_ok_def)
  from cl(1) have d1: "distinct es" unfolding code_list_def by (rule dlist_distinct)
  from fl(1) have d2: "distinct fs" unfolding file_list_def by (rule dlist_distinct)
  show ?thesis
    unfolding lists_are_def
    using code_list_walks[OF cl(1) order_refl] file_list_walks[OF fl(1) order_refl]
      cl(2) fl(2) d1 d2
    by simp
qed

lemma filter_fst_remove1:
  assumes "distinct (map fst xs)" and "map_of xs a = Some b"
  shows "map fst (filter (\<lambda>e. fst e \<noteq> a) xs) = remove1 a (map fst xs)"
    and "set (filter (\<lambda>e. fst e \<noteq> a) xs) = set xs - {(a, b)}"
  using assms
proof (induction xs)
  case Nil
  { case 1 then show ?case by simp }
  { case 2 then show ?case by simp }
next
  case (Cons x xs)
  { case 1
    show ?case
    proof (cases "fst x = a")
      case True
      with "1.prems"(1) have "a \<notin> fst ` set xs" by auto
      then have "filter (\<lambda>e. fst e \<noteq> a) xs = xs" by (intro filter_True ballI) auto
      with True show ?thesis by simp
    next
      case False
      with "1.prems" Cons.IH(1) show ?thesis by simp
    qed }
  { case 2
    show ?case
    proof (cases "fst x = a")
      case True
      with "2.prems"(1) have n: "a \<notin> fst ` set xs" by auto
      then have f: "filter (\<lambda>e. fst e \<noteq> a) xs = xs" by (intro filter_True ballI) auto
      from True "2.prems"(2) have "x = (a, b)" by (cases x) simp
      with n f show ?thesis by (auto simp: image_iff)
    next
      case False
      with "2.prems" Cons.IH(2) show ?thesis by auto
    qed }
qed

lemma tracks_initial: "tracks initial_state [] []"
  using initial_state_ok by (simp add: tracks_def) (simp add: initial_state_def)

lemma tracks_Register:
  assumes tr: "tracks s fs es"
    and a: "a \<notin> fst ` set fs" and nz: "new \<noteq> 0" and new: "new \<notin> snd ` set fs"
  shows "\<exists>s'. call k (RegisterFile t a new) s = Some s' \<and> tracks s' ((a, new) # fs) es"
proof -
  from tr have cok: "code_entries_ok s (map fst es)"
    and bl: "\<forall>e\<in>set es. blob_of (JITCodeEntry_heap s) (fst e) = snd e"
    and ud: "dom (uint8_heap s) = snd ` set es"
    and fok: "file_entries_ok s (map snd fs)"
    and g: "g_dexfile_entries s = fs"
    and free: "native_debug_interface_lock s = None"
    by (simp_all add: tracks_def)
  from fok have "dom (DEXFileEntry_heap s) = set (map snd fs)" by (simp add: file_entries_ok_def)
  with new have fresh: "DEXFileEntry_heap s new = None" by auto
  from a have "map_of fs a = None" by (simp add: map_of_eq_None_iff)
  then have absent: "um_count (g_dexfile_entries s) a = 0" by (simp add: g um_count_def)
  from Register_ok[OF fok free absent nz fresh, of t] obtain s' where
    s': "RegisterDexFileForNative t a new s = Some s'"
      "file_entries_ok s' (new # map snd fs)"
      "g_dexfile_entries s' = (a, new) # g_dexfile_entries s"
      "native_debug_interface_lock s' = None"
      "jit_debug_descriptor s' = jit_debug_descriptor s"
      "g_jit_debug_mem_usage s' = g_jit_debug_mem_usage s"
      "g_jit_code_entries s' = g_jit_code_entries s"
      "JITCodeEntry_heap s' = JITCodeEntry_heap s"
      "uint8_heap s' = uint8_heap s"
    by blast
  have cok': "code_entries_ok s' (map fst es)"
    using cok code_entries_ok_frame[of s' s "map fst es"] s'(5-9) by simp
  have "call k (RegisterFile t a new) s = Some s'" by (simp add: fresh s'(1))
  moreover have "tracks s' ((a, new) # fs) es"
    unfolding tracks_def using cok' bl ud s'(2,3,4) by (simp add: s'(8,9) g)
  ultimately show ?thesis by blast
qed

lemma tracks_Deregister:
  assumes tr: "tracks s fs es" and a: "a \<in> fst ` set fs"
  shows "\<exists>s'. call k (DeregisterFile t a) s = Some s' \<and>
     tracks s' (filter (\<lambda>f. fst f \<noteq> a) fs) es"
proof -
  from tr have cok: "code_entries_ok s (map fst es)"
    and bl: "\<forall>e\<in>set es. blob_of (JITCodeEntry_heap s) (fst e) = snd e"
    and ud: "dom (uint8_heap s) = snd ` set es"
    and fok: "file_entries_ok s (map snd fs)"
    and g: "g_dexfile_entries s = fs"
    and free: "native_debug_interface_lock s = None"
    by (simp_all add: tracks_def)
  from a obtain entry where "map_of fs a = Some entry"
    by (cases "map_of fs a") (auto simp: map_of_eq_None_iff)
  then have present: "um_find (g_dexfile_entries s) a = Some entry" by (simp add: g um_find_def)
  from Deregister_ok[OF fok free present, of t] obtain s' where
    s': "DeregisterDexFileForNative t a s = Some s'"
      "file_entries_ok s' (remove1 entry (map snd fs))"
      "g_dexfile_entries s' = um_erase a (g_dexfile_entries s)"
      "native_debug_interface_lock s' = None"
      "jit_debug_descriptor s' = jit_debug_descriptor s"
      "g_jit_debug_mem_usage s' = g_jit_debug_mem_usage s"
      "g_jit_code_entries s' = g_jit_code_entries s"
      "JITCodeEntry_heap s' = JITCodeEntry_heap s"
      "uint8_heap s' = uint8_heap s"
    by blast
  have g': "g_dexfile_entries s' = filter (\<lambda>f. fst f \<noteq> a) fs"
    by (simp add: s'(3) g um_erase_def)
  from s'(2) have "map snd (g_dexfile_entries s') = remove1 entry (map snd fs)"
    by (simp add: file_entries_ok_def)
  with s'(2) have fok': "file_entries_ok s' (map snd (filter (\<lambda>f. fst f \<noteq> a) fs))"
    by (simp add: g')
  have cok': "code_entries_ok s' (map fst es)"
    using cok code_entries_ok_frame[of s' s "map fst es"] s'(5-9) by simp
  have "call k (DeregisterFile t a) s = Some s'" by (simp add: s'(1))
  moreover have "tracks s' (filter (\<lambda>f. fst f \<noteq> a) fs) es"
    unfolding tracks_def using cok' bl ud fok' g' s'(4) by (simp add: s'(8,9))
  ultimately show ?thesis by blast
qed

lemma tracks_Create:
  assumes tr: "tracks s fs es"
    and symfile: "symfile \<noteq> []" and nz: "new_array \<noteq> 0" "new_entry \<noteq> 0"
    and new: "new_entry \<notin> fst ` set es" "new_array \<notin> snd ` set es"
  shows "\<exists>s'. call k (CreateCodeEntry symfile new_array new_entry) s = Some s' \<and>
     tracks s' fs ((new_entry, new_array) # es)"
proof -
  from tr have cok: "code_entries_ok s (map fst es)"
    and bl: "\<forall>e\<in>set es. blob_of (JITCodeEntry_heap s) (fst e) = snd e"
    and ud: "dom (uint8_heap s) = snd ` set es"
    and fok: "file_entries_ok s (map snd fs)"
    and g: "g_dexfile_entries s = fs"
    and free: "native_debug_interface_lock s = None"
    by (simp_all add: tracks_def)
  from cok have "dom (JITCodeEntry_heap s) = set (map fst es)" by (simp add: code_entries_ok_def)
  with new(1) have fresh2: "JITCodeEntry_heap s new_entry = None" by auto
  from ud new(2) have fresh1: "uint8_heap s new_array = None" by auto
  have k: "k \<longrightarrow> symfile \<noteq> []" using symfile by simp
  from Create_ok[OF cok k nz fresh1 fresh2] obtain s' where
    s': "CreateJITCodeEntry k symfile new_array new_entry s = Some (new_entry, s')"
      "code_entries_ok s' (new_entry # map fst es)"
      "JITCodeEntry_heap s' new_entry = Some
        \<lparr>jit_next = first_entry (jit_debug_descriptor s), jit_prev = 0, symfile_addr = new_array,
         symfile_size = of_nat (length symfile), ref_count = 0\<rparr>"
      "uint8_heap s' = (uint8_heap s)(new_array \<mapsto> symfile)"
      "art_debug_dexfiles s' = art_debug_dexfiles s"
      "g_dexfile_entries s' = g_dexfile_entries s"
      "native_debug_interface_lock s' = native_debug_interface_lock s"
      "DEXFileEntry_heap s' = DEXFileEntry_heap s"
    by blast
  have b0: "blob_of (JITCodeEntry_heap s') new_entry = new_array"
    by (simp add: blob_of_def s'(3))
  have b1: "blob_of (JITCodeEntry_heap s') (fst e) = snd e" if "e \<in> set es" for e
  proof -
    from that new(1) have "fst e \<noteq> new_entry" by auto
    from Create_blobs[OF s'(1) this] bl that show ?thesis by simp
  qed
  have fok': "file_entries_ok s' (map snd fs)"
    using fok file_entries_ok_frame[OF s'(5,8,6), of "map snd fs"] by simp
  have "call k (CreateCodeEntry symfile new_array new_entry) s = Some s'"
    by (simp add: fresh1 fresh2 s'(1))
  moreover have "tracks s' fs ((new_entry, new_array) # es)"
    unfolding tracks_def using s'(2) b0 b1 fok' ud free by (simp add: s'(4,6,7) g)
  ultimately show ?thesis by blast
qed

lemma tracks_Delete:
  assumes tr: "tracks s fs es" and mem: "entry \<in> fst ` set es"
  shows "\<exists>s'. call k (DeleteCodeEntry entry) s = Some s' \<and>
     tracks s' fs (filter (\<lambda>e. fst e \<noteq> entry) es)"
proof -
  from tr have cok: "code_entries_ok s (map fst es)"
    and bl: "\<forall>e\<in>set es. blob_of (JITCodeEntry_heap s) (fst e) = snd e"
    and ud: "dom (uint8_heap s) = snd ` set es"
    and fok: "file_entries_ok s (map snd fs)"
    and g: "g_dexfile_entries s = fs"
    and free: "native_debug_interface_lock s = None"
    by (simp_all add: tracks_def)
  from cok have cl: "code_list s (map fst es)"
    and bd: "distinct (map (blob_of (JITCodeEntry_heap s)) (map fst es))"
    by (simp_all add: code_entries_ok_def)
  from cl have dist: "distinct (map fst es)" unfolding code_list_def by (rule dlist_distinct)
  have "map (blob_of (JITCodeEntry_heap s) \<circ> fst) es = map snd es"
    using bl by (intro map_cong refl) simp
  with bd have dsnd: "distinct (map snd es)" by (simp del: map_eq_conv)
  from mem obtain b where b: "map_of es entry = Some b"
    by (cases "map_of es entry") (auto simp: map_of_eq_None_iff)
  then have in_es: "(entry, b) \<in> set es" by (rule map_of_SomeD)
  note f = filter_fst_remove1[OF dist b]
  from mem have mem': "entry \<in> set (map fst es)" by simp
  from Delete_ok[OF cok mem'] obtain s' e where
    s': "JITCodeEntry_heap s entry = Some e"
      "DeleteJITCodeEntry entry s = Some s'"
      "code_entries_ok s' (remove1 entry (map fst es))"
      "uint8_heap s' = (uint8_heap s)(symfile_addr e := None)"
      "art_debug_dexfiles s' = art_debug_dexfiles s"
      "g_dexfile_entries s' = g_dexfile_entries s"
      "native_debug_interface_lock s' = native_debug_interface_lock s"
      "DEXFileEntry_heap s' = DEXFileEntry_heap s"
    by blast
  from bl in_es have "blob_of (JITCodeEntry_heap s) entry = b" by force
  with s'(1) have be: "symfile_addr e = b" by (simp add: blob_of_def)
  have b1: "blob_of (JITCodeEntry_heap s') (fst x) = snd x"
    if "x \<in> set (filter (\<lambda>e. fst e \<noteq> entry) es)" for x
  proof -
    from that have "fst x \<noteq> entry" "x \<in> set es" by auto
    from Delete_blobs[OF s'(2) this(1)] bl this(2) show ?thesis by simp
  qed
  have other: "b \<notin> snd ` (set es - {(entry, b)})"
  proof
    assume "b \<in> snd ` (set es - {(entry, b)})"
    then obtain p where p: "p \<in> set es" "p \<noteq> (entry, b)" "snd p = b" by auto
    from dsnd have "inj_on snd (set es)" by (simp add: distinct_map)
    from inj_onD[OF this _ p(1) in_es] p(2,3) show False by simp
  qed
  have ud': "dom (uint8_heap s') = snd ` set (filter (\<lambda>e. fst e \<noteq> entry) es)"
  proof -
    have "dom (uint8_heap s') = snd ` set es - {b}" by (simp add: s'(4) be ud)
    also have "\<dots> = snd ` (set es - {(entry, b)})" using other in_es by force
    finally show ?thesis unfolding f(2) .
  qed
  have fok': "file_entries_ok s' (map snd fs)"
    using fok file_entries_ok_frame[OF s'(5,8,6), of "map snd fs"] by simp
  have "call k (DeleteCodeEntry entry) s = Some s'" by (simp add: s'(2))
  moreover have "tracks s' fs (filter (\<lambda>e. fst e \<noteq> entry) es)"
    unfolding tracks_def using s'(3) b1 ud' fok' free by (simp add: f(1) s'(6,7) g)
  ultimately show ?thesis by blast
qed

lemma run_list_calls:
  assumes "list_calls fs es cs" and "tracks s fs es"
  shows "\<exists>s'. run k cs s = Some s' \<and>
     tracks s' (file_entries_after fs cs) (code_entries_after es cs)"
  using assms
proof (induction fs es cs arbitrary: s rule: list_calls.induct)
  case (1 fs es)
  then show ?case by simp
next
  case (2 fs es t a new_entry cs)
  from "2.prems" tracks_Register[of s fs es a new_entry k t] obtain s1 where
    s1: "call k (RegisterFile t a new_entry) s = Some s1" "tracks s1 ((a, new_entry) # fs) es"
    by auto
  from "2.IH"[OF _ s1(2)] "2.prems"(1) s1(1) show ?case by simp
next
  case (3 fs es t a cs)
  from "3.prems" tracks_Deregister[of s fs es a k t] obtain s1 where
    s1: "call k (DeregisterFile t a) s = Some s1" "tracks s1 (filter (\<lambda>f. fst f \<noteq> a) fs) es"
    by auto
  from "3.IH"[OF _ s1(2)] "3.prems"(1) s1(1) show ?case by simp
next
  case (4 fs es symfile new_array new_entry cs)
  from "4.prems" tracks_Create[of s fs es symfile new_array new_entry k] obtain s1 where
    s1: "call k (CreateCodeEntry symfile new_array new_entry) s = Some s1"
      "tracks s1 fs ((new_entry, new_array) # es)"
    by auto
  from "4.IH"[OF _ s1(2)] "4.prems"(1) s1(1) show ?case by simp
next
  case (5 fs es entry cs)
  from "5.prems" tracks_Delete[of s fs es entry k] obtain s1 where
    s1: "call k (DeleteCodeEntry entry) s = Some s1"
      "tracks s1 fs (filter (\<lambda>e. fst e \<noteq> entry) es)"
    by auto
  from "5.IH"[OF _ s1(2)] "5.prems"(1) s1(1) show ?case by simp
qed simp_all

lemma list_calls_count:
  assumes "list_calls fs es cs" and "distinct (map fst fs)" and "distinct (map fst es)"
  shows "length (file_entries_after fs cs) + deregistrations cs = length fs + registrations cs \<and>
         length (code_entries_after es cs) + deletions cs = length es + creations cs"
  using assms
proof (induction fs es cs rule: list_calls.induct)
  case (3 fs es t a cs)
  from "3.prems"(1) obtain b where "map_of fs a = Some b"
    by (cases "map_of fs a") (auto simp: map_of_eq_None_iff)
  note f = filter_fst_remove1(1)[OF "3.prems"(2) this]
  from "3.prems"(1) have a: "a \<in> set (map fst fs)" by simp
  have d: "distinct (map fst (filter (\<lambda>f. fst f \<noteq> a) fs))"
    unfolding f using "3.prems"(2) by simp
  have "length (filter (\<lambda>f. fst f \<noteq> a) fs) = length (map fst (filter (\<lambda>f. fst f \<noteq> a) fs))"
    by simp
  also have "\<dots> = length fs - 1" unfolding f using a by (simp add: length_remove1)
  finally have l: "length (filter (\<lambda>f. fst f \<noteq> a) fs) + 1 = length fs"
    using a by (cases fs) auto
  from "3.IH"[OF _ d "3.prems"(3)] "3.prems"(1) l show ?case by simp
next
  case (5 fs es entry cs)
  from "5.prems"(1) obtain b where "map_of es entry = Some b"
    by (cases "map_of es entry") (auto simp: map_of_eq_None_iff)
  note f = filter_fst_remove1(1)[OF "5.prems"(3) this]
  from "5.prems"(1) have a: "entry \<in> set (map fst es)" by simp
  have d: "distinct (map fst (filter (\<lambda>e. fst e \<noteq> entry) es))"
    unfolding f using "5.prems"(3) by simp
  have "length (filter (\<lambda>e. fst e \<noteq> entry) es) = length (map fst (filter (\<lambda>e. fst e \<noteq> entry) es))"
    by simp
  also have "\<dots> = length es - 1" unfolding f using a by (simp add: length_remove1)
  finally have l: "length (filter (\<lambda>e. fst e \<noteq> entry) es) + 1 = length es"
    using a by (cases es) auto
  from "5.IH"[OF _ "5.prems"(2) d] "5.prems"(1) l show ?case by simp
qed auto

section \<open>The life of a code entry and its reference count\<close>

text \<open>
  Claim C1, as amended. In a state that satisfies the invariant of the code side, a
  code entry is created from a non-empty symbol file and attached to the distinct code
  addresses \<open>addrs\<close>, none of them attached before, at least one and at most \<open>2^32\<close>
  of them. The addresses are then detached one by one, in any order \<open>ds\<close>. After
  \<open>j\<close> detaches, every detached address is looked up as not found and every
  address still attached as the entry. While \<open>j\<close> is less than the number of
  addresses the entry is live, it is in the list of code entries walked from the head,
  its reference count is the number of addresses still attached, its blob is intact
  and the notification function has not been called. With the last detach the entry
  and its blob are freed, the list is the one from before the creation, and the
  notification function has been called once, for the removal of this entry.
\<close>

theorem refcount_lifecycle:
  assumes ok: "code_entries_ok s es"
    and symfile: "symfile \<noteq> []"
    and nz: "new_array \<noteq> 0" "new_entry \<noteq> 0"
    and fresh: "uint8_heap s new_array = None" "JITCodeEntry_heap s new_entry = None"
    and addrs: "addrs \<noteq> []" "distinct addrs" "length addrs \<le> 2 ^ 32"
    and absent: "\<forall>a\<in>set addrs. um_find (g_jit_code_entries s) a = None"
    and ds: "distinct ds" "set ds = set addrs"
  shows "\<exists>s1 s2. CreateJITCodeEntry k symfile new_array new_entry s = Some (new_entry, s1) \<and>
     attach_all k new_entry addrs s1 = Some s2 \<and>
     new_entry \<notin> set es \<and>
     (\<forall>j\<le>length ds. \<exists>s3. detach_all k new_entry (take j ds) s2 = Some s3 \<and>
        (\<forall>a\<in>set (take j ds). GetJITCodeEntry a s3 = 0) \<and>
        (\<forall>a\<in>set (drop j ds). GetJITCodeEntry a s3 = new_entry) \<and>
        (j < length ds \<longrightarrow>
           code_list s3 (new_entry # es) \<and>
           (\<exists>e. JITCodeEntry_heap s3 new_entry = Some e \<and> ref_count e = of_nat (length ds - j)) \<and>
           uint8_heap s3 new_array = Some symfile \<and>
           trace s3 = trace s2) \<and>
        (j = length ds \<longrightarrow>
           code_list s3 es \<and>
           JITCodeEntry_heap s3 new_entry = None \<and>
           uint8_heap s3 new_array = None \<and>
           (\<exists>m. trace s3 = trace s2 @ [(RegisterCodeCalled, m)] \<and>
              relevant_entry (jit_debug_descriptor m) = new_entry \<and>
              action_flag (jit_debug_descriptor m) = JIT_UNREGISTER_FN)))"
proof -
  from symfile have k: "k \<longrightarrow> symfile \<noteq> []" by simp
  from lifecycle[OF ok k nz fresh addrs absent ds] obtain s1 s2 where
    run: "CreateJITCodeEntry k symfile new_array new_entry s = Some (new_entry, s1)"
      "attach_all k new_entry addrs s1 = Some s2"
    and idx2: "g_jit_code_entries s2 = map (\<lambda>a. (a, new_entry)) (rev addrs) @ g_jit_code_entries s"
    and partial: "\<forall>j<length ds. \<exists>s3. detach_all k new_entry (take j ds) s2 = Some s3 \<and>
        code_entries_ok s3 (new_entry # es) \<and>
        JITCodeEntry_heap s3 new_entry = Some
          \<lparr>jit_next = first_entry (jit_debug_descriptor s), jit_prev = 0,
           symfile_addr = new_array, symfile_size = of_nat (length symfile),
           ref_count = of_nat (length ds - j)\<rparr> \<and>
        uint8_heap s3 new_array = Some symfile \<and>
        trace s3 = trace s2 \<and>
        g_jit_debug_mem_usage s3 = g_jit_debug_mem_usage s2 \<and>
        g_jit_code_entries s3 = fold um_erase (take j ds) (g_jit_code_entries s2)"
    and full: "\<exists>s4 m. detach_all k new_entry ds s2 = Some s4 \<and>
        code_entries_ok s4 es \<and>
        JITCodeEntry_heap s4 new_entry = None \<and>
        uint8_heap s4 = uint8_heap s \<and>
        g_jit_code_entries s4 = g_jit_code_entries s \<and>
        g_jit_debug_mem_usage s4 = g_jit_debug_mem_usage s \<and>
        trace s4 = trace s2 @ [(RegisterCodeCalled, m)] \<and>
        relevant_entry (jit_debug_descriptor m) = new_entry \<and>
        action_flag (jit_debug_descriptor m) = JIT_UNREGISTER_FN"
    by blast
  have notin: "new_entry \<notin> set es"
    using fresh(2) code_entries_ok_live(1)[OF ok, of new_entry] by simp
  have step: "\<exists>s3. detach_all k new_entry (take j ds) s2 = Some s3 \<and>
        (\<forall>a\<in>set (take j ds). GetJITCodeEntry a s3 = 0) \<and>
        (\<forall>a\<in>set (drop j ds). GetJITCodeEntry a s3 = new_entry) \<and>
        (j < length ds \<longrightarrow>
           code_list s3 (new_entry # es) \<and>
           (\<exists>e. JITCodeEntry_heap s3 new_entry = Some e \<and> ref_count e = of_nat (length ds - j)) \<and>
           uint8_heap s3 new_array = Some symfile \<and>
           trace s3 = trace s2) \<and>
        (j = length ds \<longrightarrow>
           code_list s3 es \<and>
           JITCodeEntry_heap s3 new_entry = None \<and>
           uint8_heap s3 new_array = None \<and>
           (\<exists>m. trace s3 = trace s2 @ [(RegisterCodeCalled, m)] \<and>
              relevant_entry (jit_debug_descriptor m) = new_entry \<and>
              action_flag (jit_debug_descriptor m) = JIT_UNREGISTER_FN))"
    if j: "j \<le> length ds" for j
  proof (cases "j < length ds")
    case True
    with partial obtain s3 where
      s3: "detach_all k new_entry (take j ds) s2 = Some s3"
        "code_entries_ok s3 (new_entry # es)"
        "JITCodeEntry_heap s3 new_entry = Some
          \<lparr>jit_next = first_entry (jit_debug_descriptor s), jit_prev = 0,
           symfile_addr = new_array, symfile_size = of_nat (length symfile),
           ref_count = of_nat (length ds - j)\<rparr>"
        "uint8_heap s3 new_array = Some symfile"
        "trace s3 = trace s2"
        "g_jit_code_entries s3 = fold um_erase (take j ds) (g_jit_code_entries s2)"
      by blast
    have gone: "GetJITCodeEntry a s3 = 0" if "a \<in> set (take j ds)" for a
      using that by (simp add: GetJITCodeEntry_def s3(6) um_find_fold_erase)
    have kept: "GetJITCodeEntry a s3 = new_entry" if a: "a \<in> set (drop j ds)" for a
    proof -
      from ds(1) have "distinct (take j ds @ drop j ds)" by simp
      with a have "a \<notin> set (take j ds)" by (metis distinct_append disjoint_iff)
      moreover from a ds(2) have "a \<in> set addrs" by (auto dest: in_set_dropD)
      ultimately show ?thesis
        by (simp add: GetJITCodeEntry_def s3(6) um_find_fold_erase idx2 um_find_attached)
    qed
    from s3(2) have "code_list s3 (new_entry # es)" by (simp add: code_entries_ok_def)
    with True s3 gone kept show ?thesis by (intro exI[of _ s3]) simp
  next
    case False
    with j have j: "j = length ds" by simp
    from full obtain s4 m where
      s4: "detach_all k new_entry ds s2 = Some s4"
        "code_entries_ok s4 es"
        "JITCodeEntry_heap s4 new_entry = None"
        "uint8_heap s4 = uint8_heap s"
        "g_jit_code_entries s4 = g_jit_code_entries s"
        "trace s4 = trace s2 @ [(RegisterCodeCalled, m)]"
        "relevant_entry (jit_debug_descriptor m) = new_entry"
        "action_flag (jit_debug_descriptor m) = JIT_UNREGISTER_FN"
      by blast
    have gone: "GetJITCodeEntry a s4 = 0" if "a \<in> set ds" for a
      using that absent ds(2) by (simp add: GetJITCodeEntry_def s4(5))
    from s4(2) have "code_list s4 es" by (simp add: code_entries_ok_def)
    with s4 gone fresh(1) show ?thesis unfolding j by (intro exI[of _ s4]) auto
  qed
  from run notin step show ?thesis by blast
qed

text \<open>
  The bound on the number of addresses is needed. The reference count is a
  \<open>uint32_t\<close>: with 4294967297 distinct addresses attached it has wrapped around to 1,
  and detaching the first address already deletes the entry, while the second address
  is still looked up as attached to it.
\<close>

theorem refcount_lifecycle_counterexample:
  "distinct many_addresses \<and> length many_addresses = 4294967297 \<and>
   overflow_run \<noteq> None \<and>
   JITCodeEntry_heap (the overflow_run) 256 = None \<and>
   GetJITCodeEntry 2 (the overflow_run) = 256"
proof -
  have k: "True \<longrightarrow> [127, 69, 76, 70 :: uint8_t] \<noteq> []" by simp
  have fresh: "uint8_heap initial_state 1280 = None" "JITCodeEntry_heap initial_state 256 = None"
    by (simp_all add: initial_state_def)
  from Create_ok[OF initial_state_ok(1) k _ _ fresh] obtain s1 where
    s1: "CreateJITCodeEntry True [127, 69, 76, 70] 1280 256 initial_state = Some (256, s1)"
      "code_entries_ok s1 [256]"
      "JITCodeEntry_heap s1 256 = Some
        \<lparr>jit_next = first_entry (jit_debug_descriptor initial_state), jit_prev = 0, symfile_addr = 1280,
         symfile_size = of_nat (length [127, 69, 76, 70 :: uint8_t]), ref_count = 0\<rparr>"
      "g_jit_code_entries s1 = g_jit_code_entries initial_state"
    by auto
  define E where "E = \<lparr>jit_next = first_entry (jit_debug_descriptor initial_state), jit_prev = 0,
         symfile_addr = (1280 :: addr),
         symfile_size = (of_nat (length [127, 69, 76, 70 :: uint8_t]) :: 64 word), ref_count = (0 :: 32 word)\<rparr>"
  define s2 where "s2 = s1\<lparr>JITCodeEntry_heap := (JITCodeEntry_heap s1)(256 \<mapsto>
                   E\<lparr>ref_count := ref_count E + of_nat (length many_addresses)\<rparr>),
                g_jit_code_entries := map (\<lambda>a. (a, 256)) (rev many_addresses) @ g_jit_code_entries s1\<rparr>"
  have absent: "\<forall>a\<in>set many_addresses. um_find (g_jit_code_entries s1) a = None"
    by (simp add: s1(4) initial_state_def um_find_def)
  from attach_all_result[OF s1(2) s1(3)[folded E_def] many_addresses_distinct absent s2_def]
  have s2: "attach_all True 256 many_addresses s1 = Some s2" "code_entries_ok s2 [256]"
    by auto
  have len: "length many_addresses = 4294967297" by (simp add: many_addresses_def)
  have e2: "JITCodeEntry_heap s2 256 = Some (E\<lparr>ref_count := 1\<rparr>)"
    by (simp add: s2_def len E_def)
  have idx2: "g_jit_code_entries s2 = map (\<lambda>a. (a, 256)) (rev many_addresses) @ g_jit_code_entries s1"
    by (simp add: s2_def)
  have att: "um_find (g_jit_code_entries s2) 1 = Some 256"
    using many_addresses_mem(1) by (simp add: idx2 um_find_attached)
  from detach_last[OF s2(2) e2 _ att, of True] obtain s3 where
    s3: "detach_all True 256 [1] s2 = Some s3"
      "JITCodeEntry_heap s3 256 = None"
      "g_jit_code_entries s3 = um_erase 1 (g_jit_code_entries s2)"
    by auto
  from s3(1) have dec: "DecrementJITCodeEntryRefcount True 256 1 s2 = Some s3"
    by (simp split: option.splits)
  have run: "overflow_run = Some s3"
    by (simp add: overflow_run_def s1(1) s2(1) dec)
  have "um_find (g_jit_code_entries s3) 2 = Some 256"
    using many_addresses_mem(2) by (simp add: s3(3) um_erase_find_other idx2 um_find_attached)
  then have "GetJITCodeEntry 2 s3 = 256" by (simp add: GetJITCodeEntry_def)
  with many_addresses_distinct len s3(2) show ?thesis unfolding run by simp
qed

theorem refcount_lifecycle_witness:
  "code_entries_ok initial_state [] \<and>
   distinct [4096, 8192, 12288 :: addr] \<and> length [4096, 8192, 12288 :: addr] \<le> 2 ^ 32 \<and>
   set [8192, 4096, 12288 :: addr] = set [4096, 8192, 12288] \<and>
   (\<exists>s1 s2 s3 s4.
      CreateJITCodeEntry True [127, 69, 76, 70] 1280 256 initial_state = Some (256, s1) \<and>
      attach_all True 256 [4096, 8192, 12288] s1 = Some s2 \<and>
      detach_all True 256 [8192, 4096] s2 = Some s3 \<and>
      JITCodeEntry_heap s3 256 \<noteq> None \<and> code_list s3 [256] \<and>
      GetJITCodeEntry 8192 s3 = 0 \<and> GetJITCodeEntry 12288 s3 = 256 \<and>
      detach_all True 256 [8192, 4096, 12288] s2 = Some s4 \<and>
      JITCodeEntry_heap s4 256 = None \<and> code_list s4 [] \<and>
      GetJITCodeEntry 12288 s4 = 0)"
proof -
  have ok: "code_entries_ok initial_state []"
    by (simp add: code_entries_ok_def code_list_def initial_state_def)
  have symfile: "[127, 69, 76, 70 :: uint8_t] \<noteq> []" by simp
  have nz: "(1280 :: addr) \<noteq> 0" "(256 :: addr) \<noteq> 0" by simp_all
  have fresh: "uint8_heap initial_state 1280 = None" "JITCodeEntry_heap initial_state 256 = None"
    by (simp_all add: initial_state_def)
  have addrs: "[4096, 8192, 12288 :: addr] \<noteq> []" "distinct [4096, 8192, 12288 :: addr]"
    "length [4096, 8192, 12288 :: addr] \<le> 2 ^ 32"
    by simp_all
  have absent: "\<forall>a\<in>set [4096, 8192, 12288 :: addr]. um_find (g_jit_code_entries initial_state) a = None"
    by (simp add: initial_state_def um_find_def)
  have ds: "distinct [8192, 4096, 12288 :: addr]"
    "set [8192, 4096, 12288 :: addr] = set [4096, 8192, 12288]"
    by auto
  from refcount_lifecycle[OF ok symfile nz fresh addrs absent ds, of True]
  obtain s1 s2 where
    run: "CreateJITCodeEntry True [127, 69, 76, 70] 1280 256 initial_state = Some (256, s1)"
      "attach_all True 256 [4096, 8192, 12288] s1 = Some s2"
    and steps: "\<forall>j\<le>length [8192, 4096, 12288 :: addr].
       \<exists>s3. detach_all True 256 (take j [8192, 4096, 12288]) s2 = Some s3 \<and>
        (\<forall>a\<in>set (take j [8192, 4096, 12288]). GetJITCodeEntry a s3 = 0) \<and>
        (\<forall>a\<in>set (drop j [8192, 4096, 12288]). GetJITCodeEntry a s3 = 256) \<and>
        (j < length [8192, 4096, 12288 :: addr] \<longrightarrow>
           code_list s3 (256 # []) \<and>
           (\<exists>e. JITCodeEntry_heap s3 256 = Some e \<and>
              ref_count e = of_nat (length [8192, 4096, 12288 :: addr] - j)) \<and>
           uint8_heap s3 1280 = Some [127, 69, 76, 70] \<and>
           trace s3 = trace s2) \<and>
        (j = length [8192, 4096, 12288 :: addr] \<longrightarrow>
           code_list s3 [] \<and>
           JITCodeEntry_heap s3 256 = None \<and>
           uint8_heap s3 1280 = None \<and>
           (\<exists>m. trace s3 = trace s2 @ [(RegisterCodeCalled, m)] \<and>
              relevant_entry (jit_debug_descriptor m) = 256 \<and>
              action_flag (jit_debug_descriptor m) = JIT_UNREGISTER_FN))"
    by blast
  from steps[rule_format, of 2] obtain s3 where
    s3: "detach_all True 256 [8192, 4096] s2 = Some s3"
      "JITCodeEntry_heap s3 256 \<noteq> None" "code_list s3 [256]"
      "GetJITCodeEntry 8192 s3 = 0" "GetJITCodeEntry 12288 s3 = 256"
    by (auto simp: numeral_2_eq_2)
  from steps[rule_format, of 3] obtain s4 where
    s4: "detach_all True 256 [8192, 4096, 12288] s2 = Some s4"
      "JITCodeEntry_heap s4 256 = None" "code_list s4 []"
      "GetJITCodeEntry 12288 s4 = 0"
    by auto
  from ok addrs ds run s3 s4 show ?thesis by blast
qed

section \<open>The descriptor at creation and at deletion\<close>

text \<open>
  Claim C2. In a state that satisfies the invariant of the code side,
  \<open>CreateJITCodeEntry\<close> on a non-empty symbol file returns the new entry, and in the
  state it returns \<open>first_entry\<close> and \<open>relevant_entry\<close> of the descriptor are both the
  new entry and \<open>action_flag\<close> is \<open>JIT_REGISTER_FN\<close>. \<open>DeleteJITCodeEntry\<close> of a live
  entry returns and calls the notification function exactly once, and in the memory as
  it is at that call \<open>relevant_entry\<close> is the entry being deleted and \<open>action_flag\<close> is
  \<open>JIT_UNREGISTER_FN\<close>. The same holds when the deletion is the one that
  \<open>DecrementJITCodeEntryRefcount\<close> starts by taking the last reference away.
\<close>

theorem descriptor_coherence:
  assumes ok: "code_entries_ok s es"
  shows "(symfile \<noteq> [] \<and> new_array \<noteq> 0 \<and> new_entry \<noteq> 0 \<and>
          uint8_heap s new_array = None \<and> JITCodeEntry_heap s new_entry = None \<longrightarrow>
          (\<exists>s'. CreateJITCodeEntry k symfile new_array new_entry s = Some (new_entry, s') \<and>
             first_entry (jit_debug_descriptor s') = new_entry \<and>
             relevant_entry (jit_debug_descriptor s') = new_entry \<and>
             action_flag (jit_debug_descriptor s') = JIT_REGISTER_FN)) \<and>
         (JITCodeEntry_heap s entry \<noteq> None \<longrightarrow>
          (\<exists>s' m. DeleteJITCodeEntry entry s = Some s' \<and>
             trace s' = trace s @ [(RegisterCodeCalled, m)] \<and>
             relevant_entry (jit_debug_descriptor m) = entry \<and>
             action_flag (jit_debug_descriptor m) = JIT_UNREGISTER_FN)) \<and>
         (JITCodeEntry_heap s entry = Some e \<and> ref_count e = 1 \<and>
          um_find (g_jit_code_entries s) a = Some entry \<longrightarrow>
          (\<exists>s' m. DecrementJITCodeEntryRefcount k entry a s = Some s' \<and>
             JITCodeEntry_heap s' entry = None \<and>
             trace s' = trace s @ [(RegisterCodeCalled, m)] \<and>
             relevant_entry (jit_debug_descriptor m) = entry \<and>
             action_flag (jit_debug_descriptor m) = JIT_UNREGISTER_FN))"
proof (intro conjI impI)
  assume pre: "symfile \<noteq> [] \<and> new_array \<noteq> 0 \<and> new_entry \<noteq> 0 \<and>
          uint8_heap s new_array = None \<and> JITCodeEntry_heap s new_entry = None"
  then have k: "k \<longrightarrow> symfile \<noteq> []" by simp
  from pre Create_ok[OF ok k, of new_array new_entry] obtain s' where
    "CreateJITCodeEntry k symfile new_array new_entry s = Some (new_entry, s')"
    "jit_debug_descriptor s' = \<lparr>version = version (jit_debug_descriptor s),
        action_flag = JIT_REGISTER_FN, relevant_entry = new_entry, first_entry = new_entry\<rparr>"
    by blast
  then show "\<exists>s'. CreateJITCodeEntry k symfile new_array new_entry s = Some (new_entry, s') \<and>
             first_entry (jit_debug_descriptor s') = new_entry \<and>
             relevant_entry (jit_debug_descriptor s') = new_entry \<and>
             action_flag (jit_debug_descriptor s') = JIT_REGISTER_FN"
    by simp
next
  assume "JITCodeEntry_heap s entry \<noteq> None"
  then have mem: "entry \<in> set es" using code_entries_ok_live(1)[OF ok, of entry] by simp
  from Delete_ok[OF ok mem] obtain s' e m where
    d: "DeleteJITCodeEntry entry s = Some s'"
      "action_flag (jit_debug_descriptor s') = JIT_UNREGISTER_FN"
      "relevant_entry (jit_debug_descriptor s') = entry"
      "trace s' = trace s @ [(RegisterCodeCalled, m)]"
      "m = (memory.truncate s')\<lparr>JITCodeEntry_heap := (JITCodeEntry_heap s')(entry \<mapsto> e),
                               uint8_heap := uint8_heap s\<rparr>"
    by blast
  have "relevant_entry (jit_debug_descriptor m) = entry"
    "action_flag (jit_debug_descriptor m) = JIT_UNREGISTER_FN"
    using d(2,3) by (simp_all add: d(5) memory.defs)
  with d(1,4) show "\<exists>s' m. DeleteJITCodeEntry entry s = Some s' \<and>
             trace s' = trace s @ [(RegisterCodeCalled, m)] \<and>
             relevant_entry (jit_debug_descriptor m) = entry \<and>
             action_flag (jit_debug_descriptor m) = JIT_UNREGISTER_FN"
    by blast
next
  assume pre: "JITCodeEntry_heap s entry = Some e \<and> ref_count e = 1 \<and>
          um_find (g_jit_code_entries s) a = Some entry"
  from detach_last[OF ok, of entry e a k] pre obtain s' m where
    d: "detach_all k entry [a] s = Some s'" "JITCodeEntry_heap s' entry = None"
      "trace s' = trace s @ [(RegisterCodeCalled, m)]"
      "relevant_entry (jit_debug_descriptor m) = entry"
      "action_flag (jit_debug_descriptor m) = JIT_UNREGISTER_FN"
    by blast
  from d(1) have "DecrementJITCodeEntryRefcount k entry a s = Some s'"
    by (simp split: option.splits)
  with d show "\<exists>s' m. DecrementJITCodeEntryRefcount k entry a s = Some s' \<and>
             JITCodeEntry_heap s' entry = None \<and>
             trace s' = trace s @ [(RegisterCodeCalled, m)] \<and>
             relevant_entry (jit_debug_descriptor m) = entry \<and>
             action_flag (jit_debug_descriptor m) = JIT_UNREGISTER_FN"
    by blast
qed

theorem descriptor_coherence_witness:
  "code_entries_ok initial_state [] \<and> code_entries_ok example_created [256] \<and>
   code_entries_ok example_attached [256] \<and>
   CreateJITCodeEntry True [127, 69, 76, 70] 1280 256 initial_state = Some (256, example_created) \<and>
   first_entry (jit_debug_descriptor example_created) = 256 \<and>
   relevant_entry (jit_debug_descriptor example_created) = 256 \<and>
   action_flag (jit_debug_descriptor example_created) = JIT_REGISTER_FN \<and>
   (\<exists>s' m. DeleteJITCodeEntry 256 example_created = Some s' \<and>
      trace s' = trace example_created @ [(RegisterCodeCalled, m)] \<and>
      relevant_entry (jit_debug_descriptor m) = 256 \<and>
      action_flag (jit_debug_descriptor m) = JIT_UNREGISTER_FN) \<and>
   (\<exists>s' m. DecrementJITCodeEntryRefcount True 256 4096 example_attached = Some s' \<and>
      JITCodeEntry_heap s' 256 = None \<and>
      trace s' = trace example_attached @ [(RegisterCodeCalled, m)] \<and>
      relevant_entry (jit_debug_descriptor m) = 256 \<and>
      action_flag (jit_debug_descriptor m) = JIT_UNREGISTER_FN)"
proof -
  have pre: "[127, 69, 76, 70 :: uint8_t] \<noteq> [] \<and> (1280 :: addr) \<noteq> 0 \<and> (256 :: addr) \<noteq> 0 \<and>
      uint8_heap initial_state 1280 = None \<and> JITCodeEntry_heap initial_state 256 = None"
    by (simp add: initial_state_def)
  from descriptor_coherence[OF initial_state_ok(1), where symfile = "[127, 69, 76, 70]"
      and new_array = 1280 and new_entry = 256 and k = True] pre
  obtain s' where "CreateJITCodeEntry True [127, 69, 76, 70] 1280 256 initial_state = Some (256, s')"
    "first_entry (jit_debug_descriptor s') = 256"
    "relevant_entry (jit_debug_descriptor s') = 256"
    "action_flag (jit_debug_descriptor s') = JIT_REGISTER_FN"
    by blast
  with example_created(1) have created:
    "first_entry (jit_debug_descriptor example_created) = 256"
    "relevant_entry (jit_debug_descriptor example_created) = 256"
    "action_flag (jit_debug_descriptor example_created) = JIT_REGISTER_FN"
    by simp_all
  have live: "JITCodeEntry_heap example_created 256 \<noteq> None"
    by (simp add: example_created(4))
  from descriptor_coherence[OF example_created(2), where entry = 256] live
  have deleted: "\<exists>s' m. DeleteJITCodeEntry 256 example_created = Some s' \<and>
      trace s' = trace example_created @ [(RegisterCodeCalled, m)] \<and>
      relevant_entry (jit_debug_descriptor m) = 256 \<and>
      action_flag (jit_debug_descriptor m) = JIT_UNREGISTER_FN"
    by blast
  have last: "JITCodeEntry_heap example_attached 256 =
      Some \<lparr>jit_next = 0, jit_prev = 0, symfile_addr = 1280, symfile_size = 4, ref_count = 1\<rparr> \<and>
      ref_count \<lparr>jit_next = 0, jit_prev = 0, symfile_addr = 1280, symfile_size = 4,
        ref_count = 1 :: 32 word\<rparr> = 1 \<and>
      um_find (g_jit_code_entries example_attached) 4096 = Some 256"
    by (simp add: example_attached(3,4) um_find_def)
  from descriptor_coherence[OF example_attached(2), where entry = 256 and a = 4096 and k = True
      and e = "\<lparr>jit_next = 0, jit_prev = 0, symfile_addr = 1280, symfile_size = 4, ref_count = 1\<rparr>"] last
  have detached: "\<exists>s' m. DecrementJITCodeEntryRefcount True 256 4096 example_attached = Some s' \<and>
      JITCodeEntry_heap s' 256 = None \<and>
      trace s' = trace example_attached @ [(RegisterCodeCalled, m)] \<and>
      relevant_entry (jit_debug_descriptor m) = 256 \<and>
      action_flag (jit_debug_descriptor m) = JIT_UNREGISTER_FN"
    by blast
  from initial_state_ok(1) example_created(1,2) example_attached(2) created deleted detached
  show ?thesis by blast
qed

section \<open>Registering a file that is registered already\<close>

text \<open>
  Claim C3. In a state that satisfies the invariant of the file side and with the lock
  free, \<open>RegisterDexFileForNative\<close> for a file address that is a key of
  \<open>g_dexfile_entries\<close> returns and leaves the whole memory as it was: the list, the
  index and the change counter are unchanged, and the list holds exactly one entry for
  that address. For an address that is not a key, two registrations in a row both
  return; the change counter is one more than at the start after the first and still
  after the second, the second leaves the memory as the first left it, and the list
  then holds exactly one entry for the address, the one the first call allocated.
\<close>

theorem RegisterDexFileForNative_idempotent:
  assumes ok: "file_entries_ok s fs" and free: "native_debug_interface_lock s = None"
  shows "(um_count (g_dexfile_entries s) k \<noteq> 0 \<longrightarrow>
          (\<exists>s'. RegisterDexFileForNative t k new s = Some s' \<and>
             memory.truncate s' = memory.truncate s \<and>
             file_list s' fs \<and>
             length (entries_for (DEXFileEntry_heap s') k fs) = 1 \<and>
             art_debug_dexfiles_timestamp s' = art_debug_dexfiles_timestamp s \<and>
             g_dexfile_entries s' = g_dexfile_entries s)) \<and>
         (um_count (g_dexfile_entries s) k = 0 \<and> new \<noteq> 0 \<and> DEXFileEntry_heap s new = None \<longrightarrow>
          (\<exists>s1 s2. RegisterDexFileForNative t k new s = Some s1 \<and>
             RegisterDexFileForNative t' k new' s1 = Some s2 \<and>
             art_debug_dexfiles_timestamp s1 = art_debug_dexfiles_timestamp s + 1 \<and>
             art_debug_dexfiles_timestamp s2 = art_debug_dexfiles_timestamp s + 1 \<and>
             memory.truncate s2 = memory.truncate s1 \<and>
             file_list s2 (new # fs) \<and>
             entries_for (DEXFileEntry_heap s2) k (new # fs) = [new] \<and>
             g_dexfile_entries s2 = (k, new) # g_dexfile_entries s))"
proof (intro conjI impI)
  assume present: "um_count (g_dexfile_entries s) k \<noteq> 0"
  define s' where "s' = s\<lparr>trace := trace s @
        [(LockAcquired, memory.truncate (s\<lparr>native_debug_interface_lock := Some t\<rparr>)),
         (LockReleased, memory.truncate (s\<lparr>native_debug_interface_lock := Some t\<rparr>))]\<rparr>"
  have r: "RegisterDexFileForNative t k new s = Some s'"
    unfolding s'_def by (rule Register_present[OF free present])
  from present obtain entry where "um_find (g_dexfile_entries s) k = Some entry"
    by (auto simp: um_count_def um_find_def split: option.splits)
  then have one: "length (entries_for (DEXFileEntry_heap s) k fs) = 1"
    by (simp add: file_entries_ok_entries_for[OF ok])
  from ok have "file_list s fs" by (simp add: file_entries_ok_def)
  with r one show "\<exists>s'. RegisterDexFileForNative t k new s = Some s' \<and>
             memory.truncate s' = memory.truncate s \<and>
             file_list s' fs \<and>
             length (entries_for (DEXFileEntry_heap s') k fs) = 1 \<and>
             art_debug_dexfiles_timestamp s' = art_debug_dexfiles_timestamp s \<and>
             g_dexfile_entries s' = g_dexfile_entries s"
    by (intro exI[of _ s']) (simp add: s'_def memory.defs file_list_def)
next
  assume pre: "um_count (g_dexfile_entries s) k = 0 \<and> new \<noteq> 0 \<and> DEXFileEntry_heap s new = None"
  then have absent: "um_count (g_dexfile_entries s) k = 0" and nz: "new \<noteq> 0"
    and fresh: "DEXFileEntry_heap s new = None" by auto
  from Register_ok[OF ok free absent nz fresh, of t] obtain s1 where
    s1: "RegisterDexFileForNative t k new s = Some s1"
      "file_entries_ok s1 (new # fs)"
      "art_debug_dexfiles_timestamp s1 = art_debug_dexfiles_timestamp s + 1"
      "g_dexfile_entries s1 = (k, new) # g_dexfile_entries s"
      "native_debug_interface_lock s1 = None"
    by blast
  define s2 where "s2 = s1\<lparr>trace := trace s1 @
        [(LockAcquired, memory.truncate (s1\<lparr>native_debug_interface_lock := Some t'\<rparr>)),
         (LockReleased, memory.truncate (s1\<lparr>native_debug_interface_lock := Some t'\<rparr>))]\<rparr>"
  have present: "um_count (g_dexfile_entries s1) k \<noteq> 0"
    by (simp add: s1(4) um_count_def)
  have r: "RegisterDexFileForNative t' k new' s1 = Some s2"
    unfolding s2_def by (rule Register_present[OF s1(5) present])
  have "um_find (g_dexfile_entries s1) k = Some new"
    by (simp add: s1(4) um_find_def)
  then have one: "entries_for (DEXFileEntry_heap s1) k (new # fs) = [new]"
    by (simp add: file_entries_ok_entries_for[OF s1(2)])
  from s1(2) have "file_list s1 (new # fs)" by (simp add: file_entries_ok_def)
  with s1 r one show "\<exists>s1 s2. RegisterDexFileForNative t k new s = Some s1 \<and>
             RegisterDexFileForNative t' k new' s1 = Some s2 \<and>
             art_debug_dexfiles_timestamp s1 = art_debug_dexfiles_timestamp s + 1 \<and>
             art_debug_dexfiles_timestamp s2 = art_debug_dexfiles_timestamp s + 1 \<and>
             memory.truncate s2 = memory.truncate s1 \<and>
             file_list s2 (new # fs) \<and>
             entries_for (DEXFileEntry_heap s2) k (new # fs) = [new] \<and>
             g_dexfile_entries s2 = (k, new) # g_dexfile_entries s"
    by (intro exI[of _ s1] exI[of _ s2]) (simp add: s2_def memory.defs file_list_def)
qed

theorem RegisterDexFileForNative_idempotent_witness:
  "file_entries_ok example_files [48, 32, 16] \<and>
   native_debug_interface_lock example_files = None \<and>
   um_count (g_dexfile_entries example_files) 176 = 1 \<and>
   (\<exists>s'. RegisterDexFileForNative 2 176 64 example_files = Some s' \<and>
      memory.truncate s' = memory.truncate example_files \<and>
      file_list s' [48, 32, 16] \<and>
      length (entries_for (DEXFileEntry_heap s') 176 [48, 32, 16]) = 1 \<and>
      art_debug_dexfiles_timestamp s' = art_debug_dexfiles_timestamp example_files) \<and>
   file_entries_ok initial_state [] \<and> native_debug_interface_lock initial_state = None \<and>
   um_count (g_dexfile_entries initial_state) 160 = 0 \<and>
   DEXFileEntry_heap initial_state 16 = None \<and>
   (\<exists>s1 s2. RegisterDexFileForNative 1 160 16 initial_state = Some s1 \<and>
      RegisterDexFileForNative 2 160 32 s1 = Some s2 \<and>
      art_debug_dexfiles_timestamp s1 = 1 \<and> art_debug_dexfiles_timestamp s2 = 1 \<and>
      memory.truncate s2 = memory.truncate s1 \<and>
      file_list s2 [16] \<and>
      entries_for (DEXFileEntry_heap s2) 160 [16] = [16])"
proof -
  have present: "um_count (g_dexfile_entries example_files) 176 = 1"
    by (simp add: example_files(4) um_count_def)
  then have p: "um_count (g_dexfile_entries example_files) 176 \<noteq> 0" by simp
  from RegisterDexFileForNative_idempotent[OF example_files(2,5), where k = 176 and t = 2
      and new = 64] p
  have again: "\<exists>s'. RegisterDexFileForNative 2 176 64 example_files = Some s' \<and>
      memory.truncate s' = memory.truncate example_files \<and>
      file_list s' [48, 32, 16] \<and>
      length (entries_for (DEXFileEntry_heap s') 176 [48, 32, 16]) = 1 \<and>
      art_debug_dexfiles_timestamp s' = art_debug_dexfiles_timestamp example_files"
    by blast
  have i: "native_debug_interface_lock initial_state = None"
    "um_count (g_dexfile_entries initial_state) 160 = 0" "DEXFileEntry_heap initial_state 16 = None"
    "art_debug_dexfiles_timestamp initial_state = 0"
    by (simp_all add: initial_state_def um_count_def)
  have pre: "um_count (g_dexfile_entries initial_state) 160 = 0 \<and> (16 :: addr) \<noteq> 0 \<and>
      DEXFileEntry_heap initial_state 16 = None"
    using i by simp
  from RegisterDexFileForNative_idempotent[OF initial_state_ok(2) i(1), where k = 160 and t = 1
      and new = 16 and t' = 2 and new' = 32] pre
  obtain s1 s2 where "RegisterDexFileForNative 1 160 16 initial_state = Some s1"
    "RegisterDexFileForNative 2 160 32 s1 = Some s2"
    "art_debug_dexfiles_timestamp s1 = art_debug_dexfiles_timestamp initial_state + 1"
    "art_debug_dexfiles_timestamp s2 = art_debug_dexfiles_timestamp initial_state + 1"
    "memory.truncate s2 = memory.truncate s1"
    "file_list s2 [16]"
    "entries_for (DEXFileEntry_heap s2) 160 [16] = [16]"
    by blast
  then have twice: "\<exists>s1 s2. RegisterDexFileForNative 1 160 16 initial_state = Some s1 \<and>
      RegisterDexFileForNative 2 160 32 s1 = Some s2 \<and>
      art_debug_dexfiles_timestamp s1 = 1 \<and> art_debug_dexfiles_timestamp s2 = 1 \<and>
      memory.truncate s2 = memory.truncate s1 \<and>
      file_list s2 [16] \<and>
      entries_for (DEXFileEntry_heap s2) 160 [16] = [16]"
    by (auto simp: i(4))
  from example_files(2,5) present again initial_state_ok(2) i(1,2,3) twice
  show ?thesis by blast
qed

section \<open>Deregistering a file that is not registered\<close>

text \<open>
  Claim C4. For a file address that is not a key of \<open>g_dexfile_entries\<close>,
  \<open>DeregisterDexFileForNative\<close> returns normally and leaves the whole memory as it
  was: the head of the file list, every \<open>DEXFileEntry\<close> and so the list they form,
  both change counters and the map. The lock has to be free for the call to go on; it
  is free again afterwards.
\<close>

theorem DeregisterDexFileForNative_unregistered:
  assumes "native_debug_interface_lock s = None"
    and "um_find (g_dexfile_entries s) k = None"
  shows "\<exists>s'. DeregisterDexFileForNative t k s = Some s' \<and>
      memory.truncate s' = memory.truncate s \<and>
      art_debug_dexfiles s' = art_debug_dexfiles s \<and>
      DEXFileEntry_heap s' = DEXFileEntry_heap s \<and>
      (\<forall>fs. file_list s' fs = file_list s fs) \<and>
      art_debug_dexfiles_timestamp s' = art_debug_dexfiles_timestamp s \<and>
      jit_debug_descriptor_timestamp s' = jit_debug_descriptor_timestamp s \<and>
      g_dexfile_entries s' = g_dexfile_entries s"
  by (simp add: Deregister_absent[OF assms] memory.defs file_list_def)

theorem DeregisterDexFileForNative_unregistered_witness:
  "native_debug_interface_lock initial_state = None \<and>
   um_find (g_dexfile_entries initial_state) 160 = None \<and>
   (\<exists>s'. DeregisterDexFileForNative 1 160 initial_state = Some s' \<and>
      memory.truncate s' = memory.truncate initial_state \<and>
      art_debug_dexfiles_timestamp s' = 0 \<and> g_dexfile_entries s' = [])"
proof -
  have free: "native_debug_interface_lock initial_state = None"
    by (simp add: initial_state_def)
  have absent: "um_find (g_dexfile_entries initial_state) 160 = None"
    by (simp add: initial_state_def um_find_def)
  from DeregisterDexFileForNative_unregistered[OF free absent, of 1]
  obtain s' where "DeregisterDexFileForNative 1 160 initial_state = Some s'"
    "memory.truncate s' = memory.truncate initial_state"
    "art_debug_dexfiles_timestamp s' = art_debug_dexfiles_timestamp initial_state"
    "g_dexfile_entries s' = g_dexfile_entries initial_state"
    by blast
  with free absent show ?thesis by (simp add: initial_state_def)
qed

section \<open>Both lists stay well-formed doubly linked lists\<close>

text \<open>
  Claim C5. Every sequence of registrations and deregistrations of files and of
  creations and deletions of code entries that is in \<open>list_calls\<close> (distinct
  addresses, at any position of the lists) returns when it is run from the initial
  state. In the state it returns, each of the two lists is a well-formed doubly linked
  list of exactly the entries expected from the calls: the walk from the head along
  \<open>next\<close> visits them, newest first, the walk from the last along \<open>prev\<close> visits them
  in reverse order, and they are exactly the live entries. Every file entry holds the
  file address it was registered for. There are at least as many registrations as
  deregistrations and the file list has as many entries as their difference, and the
  same for creations, deletions and the list of code entries.

  After any sequence of calls at all that returns from the initial state (attaches and
  detaches too) both invariants hold and both lists are well-formed in this sense.

  In every state in which the invariants hold for the lists \<open>es\<close> and \<open>fs\<close>, each of
  the four operations returns and keeps them: a creation or registration puts the new
  entry at the head of its list, a deletion or deregistration removes its entry from
  wherever it stands in its list, at the head, in the middle or at the end, and the
  other list stays as it is.
\<close>

theorem lists_well_formed:
  "(list_calls [] [] cs \<longrightarrow>
      (\<exists>s. run k cs initial_state = Some s \<and>
         lists_are s (map fst (code_entries_after [] cs)) (map snd (file_entries_after [] cs)) \<and>
         map (\<lambda>a. map_option dexfile (DEXFileEntry_heap s a)) (map snd (file_entries_after [] cs)) =
           map (Some \<circ> fst) (file_entries_after [] cs) \<and>
         deregistrations cs \<le> registrations cs \<and>
         length (file_entries_after [] cs) = registrations cs - deregistrations cs \<and>
         deletions cs \<le> creations cs \<and>
         length (code_entries_after [] cs) = creations cs - deletions cs)) \<and>
   (run k cs initial_state = Some r \<longrightarrow>
      (\<exists>es fs. code_entries_ok r es \<and> file_entries_ok r fs \<and> lists_are r es fs \<and>
         map (\<lambda>a. map_option dexfile (DEXFileEntry_heap r a)) fs = map Some (registered [] cs) \<and>
         (distinct_addresses [] cs \<longrightarrow>
            deregistrations cs \<le> registrations cs \<and>
            length fs = registrations cs - deregistrations cs))) \<and>
   (code_entries_ok s es \<and> file_entries_ok s fs \<longrightarrow>
      lists_are s es fs \<and>
      (symfile \<noteq> [] \<and> new_array \<noteq> 0 \<and> new_entry \<noteq> 0 \<and>
       uint8_heap s new_array = None \<and> JITCodeEntry_heap s new_entry = None \<longrightarrow>
         (\<exists>s'. CreateJITCodeEntry k symfile new_array new_entry s = Some (new_entry, s') \<and>
            code_entries_ok s' (new_entry # es) \<and> file_entries_ok s' fs \<and>
            lists_are s' (new_entry # es) fs)) \<and>
      (entry \<in> set es \<longrightarrow>
         (\<exists>s'. DeleteJITCodeEntry entry s = Some s' \<and>
            code_entries_ok s' (remove1 entry es) \<and> file_entries_ok s' fs \<and>
            lists_are s' (remove1 entry es) fs)) \<and>
      (native_debug_interface_lock s = None \<and> um_count (g_dexfile_entries s) a = 0 \<and>
       new_file \<noteq> 0 \<and> DEXFileEntry_heap s new_file = None \<longrightarrow>
         (\<exists>s'. RegisterDexFileForNative t a new_file s = Some s' \<and>
            code_entries_ok s' es \<and> file_entries_ok s' (new_file # fs) \<and>
            lists_are s' es (new_file # fs))) \<and>
      (native_debug_interface_lock s = None \<and>
       um_find (g_dexfile_entries s) a = Some file_entry \<longrightarrow>
         (\<exists>s'. DeregisterDexFileForNative t a s = Some s' \<and> file_entry \<in> set fs \<and>
            code_entries_ok s' es \<and> file_entries_ok s' (remove1 file_entry fs) \<and>
            lists_are s' es (remove1 file_entry fs))))"
proof (intro conjI impI)
  assume lc: "list_calls [] [] cs"
  define F where "F = file_entries_after [] cs"
  define E where "E = code_entries_after [] cs"
  from run_list_calls[OF lc tracks_initial, of k] obtain s where
    s: "run k cs initial_state = Some s" "tracks s F E"
    unfolding F_def E_def by blast
  from s(2) have ok: "code_entries_ok s (map fst E)" "file_entries_ok s (map snd F)"
    and g: "g_dexfile_entries s = F"
    by (simp_all add: tracks_def)
  have keys: "map (\<lambda>a. map_option dexfile (DEXFileEntry_heap s a)) (map snd F) =
      map (Some \<circ> fst) F"
    using file_entries_ok_keys[OF ok(2)] by (simp add: g)
  from list_calls_count[OF lc] have
    "length F + deregistrations cs = registrations cs"
    "length E + deletions cs = creations cs"
    by (simp_all add: F_def E_def)
  then have cnt: "deregistrations cs \<le> registrations cs"
    "length F = registrations cs - deregistrations cs"
    "deletions cs \<le> creations cs"
    "length E = creations cs - deletions cs"
    by arith+
  from s(1) lists_are_ok[OF ok] keys cnt
  show "\<exists>s. run k cs initial_state = Some s \<and>
         lists_are s (map fst (code_entries_after [] cs)) (map snd (file_entries_after [] cs)) \<and>
         map (\<lambda>a. map_option dexfile (DEXFileEntry_heap s a)) (map snd (file_entries_after [] cs)) =
           map (Some \<circ> fst) (file_entries_after [] cs) \<and>
         deregistrations cs \<le> registrations cs \<and>
         length (file_entries_after [] cs) = registrations cs - deregistrations cs \<and>
         deletions cs \<le> creations cs \<and>
         length (code_entries_after [] cs) = creations cs - deletions cs"
    unfolding F_def E_def by blast
next
  assume r: "run k cs initial_state = Some r"
  from run_ok[OF initial_state_ok r] obtain es fs where
    ok: "code_entries_ok r es" "file_entries_ok r fs"
      "map fst (g_dexfile_entries r) = registered [] cs"
    by (auto simp: initial_state_def)
  from ok(2) have "map snd (g_dexfile_entries r) = fs" by (simp add: file_entries_ok_def)
  then have len: "length fs = length (registered [] cs)"
    using ok(3) by (metis length_map)
  have cnt: "deregistrations cs \<le> registrations cs \<and>
        length fs = registrations cs - deregistrations cs" if "distinct_addresses [] cs"
    using registered_count[OF _ that] len by simp
  have keys: "map (\<lambda>a. map_option dexfile (DEXFileEntry_heap r a)) fs = map Some (registered [] cs)"
    using file_entries_ok_keys[OF ok(2)] ok(3) by simp
  from ok(1,2) lists_are_ok[OF ok(1,2)] keys cnt
  show "\<exists>es fs. code_entries_ok r es \<and> file_entries_ok r fs \<and> lists_are r es fs \<and>
         map (\<lambda>a. map_option dexfile (DEXFileEntry_heap r a)) fs = map Some (registered [] cs) \<and>
         (distinct_addresses [] cs \<longrightarrow>
            deregistrations cs \<le> registrations cs \<and>
            length fs = registrations cs - deregistrations cs)"
    by blast
next
  assume "code_entries_ok s es \<and> file_entries_ok s fs"
  then show "lists_are s es fs" by (simp add: lists_are_ok)
next
  assume "code_entries_ok s es \<and> file_entries_ok s fs"
  then have ok: "code_entries_ok s es" "file_entries_ok s fs" by simp_all
  assume pre: "symfile \<noteq> [] \<and> new_array \<noteq> 0 \<and> new_entry \<noteq> 0 \<and>
       uint8_heap s new_array = None \<and> JITCodeEntry_heap s new_entry = None"
  then have kk: "k \<longrightarrow> symfile \<noteq> []" by simp
  from pre Create_ok[OF ok(1) kk, of new_array new_entry] obtain s' where
    s': "CreateJITCodeEntry k symfile new_array new_entry s = Some (new_entry, s')"
      "code_entries_ok s' (new_entry # es)"
      "art_debug_dexfiles s' = art_debug_dexfiles s"
      "g_dexfile_entries s' = g_dexfile_entries s"
      "DEXFileEntry_heap s' = DEXFileEntry_heap s"
    by blast
  have fok': "file_entries_ok s' fs"
    using ok(2) file_entries_ok_frame[OF s'(3,5,4), of fs] by simp
  from s'(1,2) fok' lists_are_ok[OF s'(2) fok']
  show "\<exists>s'. CreateJITCodeEntry k symfile new_array new_entry s = Some (new_entry, s') \<and>
            code_entries_ok s' (new_entry # es) \<and> file_entries_ok s' fs \<and>
            lists_are s' (new_entry # es) fs"
    by blast
next
  assume "code_entries_ok s es \<and> file_entries_ok s fs"
  then have ok: "code_entries_ok s es" "file_entries_ok s fs" by simp_all
  assume mem: "entry \<in> set es"
  from Delete_ok[OF ok(1) mem] obtain s' where
    s': "DeleteJITCodeEntry entry s = Some s'"
      "code_entries_ok s' (remove1 entry es)"
      "art_debug_dexfiles s' = art_debug_dexfiles s"
      "g_dexfile_entries s' = g_dexfile_entries s"
      "DEXFileEntry_heap s' = DEXFileEntry_heap s"
    by blast
  have fok': "file_entries_ok s' fs"
    using ok(2) file_entries_ok_frame[OF s'(3,5,4), of fs] by simp
  from s'(1,2) fok' lists_are_ok[OF s'(2) fok']
  show "\<exists>s'. DeleteJITCodeEntry entry s = Some s' \<and>
            code_entries_ok s' (remove1 entry es) \<and> file_entries_ok s' fs \<and>
            lists_are s' (remove1 entry es) fs"
    by blast
next
  assume "code_entries_ok s es \<and> file_entries_ok s fs"
  then have ok: "code_entries_ok s es" "file_entries_ok s fs" by simp_all
  assume pre: "native_debug_interface_lock s = None \<and> um_count (g_dexfile_entries s) a = 0 \<and>
       new_file \<noteq> 0 \<and> DEXFileEntry_heap s new_file = None"
  from pre Register_ok[OF ok(2), of a new_file t] obtain s' where
    s': "RegisterDexFileForNative t a new_file s = Some s'"
      "file_entries_ok s' (new_file # fs)"
      "jit_debug_descriptor s' = jit_debug_descriptor s"
      "g_jit_debug_mem_usage s' = g_jit_debug_mem_usage s"
      "g_jit_code_entries s' = g_jit_code_entries s"
      "JITCodeEntry_heap s' = JITCodeEntry_heap s"
      "uint8_heap s' = uint8_heap s"
    by blast
  have cok': "code_entries_ok s' es"
    using ok(1) code_entries_ok_frame[of s' s es] s'(3-7) by simp
  from s'(1,2) cok' lists_are_ok[OF cok' s'(2)]
  show "\<exists>s'. RegisterDexFileForNative t a new_file s = Some s' \<and>
            code_entries_ok s' es \<and> file_entries_ok s' (new_file # fs) \<and>
            lists_are s' es (new_file # fs)"
    by blast
next
  assume "code_entries_ok s es \<and> file_entries_ok s fs"
  then have ok: "code_entries_ok s es" "file_entries_ok s fs" by simp_all
  assume pre: "native_debug_interface_lock s = None \<and>
       um_find (g_dexfile_entries s) a = Some file_entry"
  then have free: "native_debug_interface_lock s = None"
    and present: "um_find (g_dexfile_entries s) a = Some file_entry" by simp_all
  from Deregister_ok[OF ok(2) free present, of t] obtain s' where
    s': "DeregisterDexFileForNative t a s = Some s'" "file_entry \<in> set fs"
      "file_entries_ok s' (remove1 file_entry fs)"
      "jit_debug_descriptor s' = jit_debug_descriptor s"
      "g_jit_debug_mem_usage s' = g_jit_debug_mem_usage s"
      "g_jit_code_entries s' = g_jit_code_entries s"
      "JITCodeEntry_heap s' = JITCodeEntry_heap s"
      "uint8_heap s' = uint8_heap s"
    by blast
  have cok': "code_entries_ok s' es"
    using ok(1) code_entries_ok_frame[of s' s es] s'(4-8) by simp
  from s'(1,2,3) cok' lists_are_ok[OF cok' s'(3)]
  show "\<exists>s'. DeregisterDexFileForNative t a s = Some s' \<and> file_entry \<in> set fs \<and>
            code_entries_ok s' es \<and> file_entries_ok s' (remove1 file_entry fs) \<and>
            lists_are s' es (remove1 file_entry fs)"
    by blast
qed

theorem lists_well_formed_witness:
  "list_calls [] []
     [RegisterFile 1 160 16, RegisterFile 1 176 32, RegisterFile 1 192 48,
      CreateCodeEntry [127, 69, 76, 70] 1280 256, CreateCodeEntry [1, 2] 1536 512,
      CreateCodeEntry [3] 1792 768, DeleteCodeEntry 512, DeregisterFile 1 176] \<and>
   distinct_addresses []
     [RegisterFile 1 160 16, RegisterFile 1 176 32, RegisterFile 1 192 48,
      CreateCodeEntry [127, 69, 76, 70] 1280 256, CreateCodeEntry [1, 2] 1536 512,
      CreateCodeEntry [3] 1792 768, DeleteCodeEntry 512, DeregisterFile 1 176] \<and>
   (\<exists>s. run True
        [RegisterFile 1 160 16, RegisterFile 1 176 32, RegisterFile 1 192 48,
         CreateCodeEntry [127, 69, 76, 70] 1280 256, CreateCodeEntry [1, 2] 1536 512,
         CreateCodeEntry [3] 1792 768, DeleteCodeEntry 512, DeregisterFile 1 176]
        initial_state = Some s \<and>
      lists_are s [768, 256] [48, 16] \<and>
      map (\<lambda>a. map_option dexfile (DEXFileEntry_heap s a)) [48, 16] = [Some 192, Some 160] \<and>
      (\<exists>es fs. code_entries_ok s es \<and> file_entries_ok s fs \<and> lists_are s es fs \<and>
         map (\<lambda>a. map_option dexfile (DEXFileEntry_heap s a)) fs = [Some 192, Some 160] \<and>
         length fs = 2)) \<and>
   code_entries_ok initial_state [] \<and> file_entries_ok initial_state [] \<and>
   lists_are initial_state [] [] \<and>
   (\<exists>s'. CreateJITCodeEntry True [127, 69, 76, 70] 1280 256 initial_state = Some (256, s') \<and>
      lists_are s' [256] []) \<and>
   code_entries_ok example_created [256] \<and> file_entries_ok example_created [] \<and>
   (\<exists>s'. DeleteJITCodeEntry 256 example_created = Some s' \<and> lists_are s' [] []) \<and>
   code_entries_ok example_files [] \<and> file_entries_ok example_files [48, 32, 16] \<and>
   lists_are example_files [] [48, 32, 16] \<and>
   (\<exists>s'. RegisterDexFileForNative 1 208 64 example_files = Some s' \<and>
      lists_are s' [] [64, 48, 32, 16]) \<and>
   (\<exists>s'. DeregisterDexFileForNative 1 176 example_files = Some s' \<and>
      lists_are s' [] [48, 16])"
proof -
  define cs where "cs = [RegisterFile 1 160 16, RegisterFile 1 176 32, RegisterFile 1 192 48,
      CreateCodeEntry [127, 69, 76, 70] 1280 256, CreateCodeEntry [1, 2] 1536 512,
      CreateCodeEntry [3] 1792 768, DeleteCodeEntry 512, DeregisterFile 1 176]"
  have lc: "list_calls [] [] cs" unfolding cs_def by simp
  have da: "distinct_addresses [] cs" unfolding cs_def by simp
  have after: "code_entries_after [] cs = [(768, 1792), (256, 1280)]"
    "file_entries_after [] cs = [(192, 48), (160, 16)]"
    "registered [] cs = [192, 160]"
    "registrations cs = 3" "deregistrations cs = 1"
    unfolding cs_def by simp_all
  from lists_well_formed[where cs = cs and k = True] lc
  obtain s where s: "run True cs initial_state = Some s"
    "lists_are s (map fst (code_entries_after [] cs)) (map snd (file_entries_after [] cs))"
    "map (\<lambda>a. map_option dexfile (DEXFileEntry_heap s a)) (map snd (file_entries_after [] cs)) =
       map (Some \<circ> fst) (file_entries_after [] cs)"
    by blast
  from lists_well_formed[where cs = cs and k = True and r = s] s(1) da
  obtain es fs where r: "code_entries_ok s es" "file_entries_ok s fs" "lists_are s es fs"
    "map (\<lambda>a. map_option dexfile (DEXFileEntry_heap s a)) fs = map Some (registered [] cs)"
    "length fs = registrations cs - deregistrations cs"
    by blast
  have run: "\<exists>s. run True cs initial_state = Some s \<and>
      lists_are s [768, 256] [48, 16] \<and>
      map (\<lambda>a. map_option dexfile (DEXFileEntry_heap s a)) [48, 16] = [Some 192, Some 160] \<and>
      (\<exists>es fs. code_entries_ok s es \<and> file_entries_ok s fs \<and> lists_are s es fs \<and>
         map (\<lambda>a. map_option dexfile (DEXFileEntry_heap s a)) fs = [Some 192, Some 160] \<and>
         length fs = 2)"
    using s r unfolding after by (intro exI[of _ s] conjI exI[of _ es] exI[of _ fs]) simp_all
  have pre0: "[127, 69, 76, 70 :: uint8_t] \<noteq> [] \<and> (1280 :: addr) \<noteq> 0 \<and> (256 :: addr) \<noteq> 0 \<and>
      uint8_heap initial_state 1280 = None \<and> JITCodeEntry_heap initial_state 256 = None"
    by (simp add: initial_state_def)
  from lists_well_formed[where s = initial_state and es = "[]" and fs = "[]" and k = True
      and symfile = "[127, 69, 76, 70]" and new_array = 1280 and new_entry = 256]
    initial_state_ok pre0
  have i: "lists_are initial_state [] []"
    "\<exists>s'. CreateJITCodeEntry True [127, 69, 76, 70] 1280 256 initial_state = Some (256, s') \<and>
      lists_are s' [256] []"
    by blast+
  have mem: "(256 :: addr) \<in> set [256]" by simp
  from lists_well_formed[where s = example_created and es = "[256]" and fs = "[]"
      and entry = 256] example_created(2,3) mem
  have "\<exists>s'. DeleteJITCodeEntry 256 example_created = Some s' \<and>
      lists_are s' (remove1 256 [256]) []"
    by blast
  then have d: "\<exists>s'. DeleteJITCodeEntry 256 example_created = Some s' \<and> lists_are s' [] []"
    by simp
  from example_files(2) have "dom (DEXFileEntry_heap example_files) = set [48, 32, 16]"
    by (simp add: file_entries_ok_def)
  then have "64 \<notin> dom (DEXFileEntry_heap example_files)" by simp
  then have pre1: "native_debug_interface_lock example_files = None \<and>
      um_count (g_dexfile_entries example_files) 208 = 0 \<and> (64 :: addr) \<noteq> 0 \<and>
      DEXFileEntry_heap example_files 64 = None"
    using example_files(5) by (auto simp: example_files(4) um_count_def)
  have pre2: "native_debug_interface_lock example_files = None \<and>
      um_find (g_dexfile_entries example_files) 176 = Some 32"
    using example_files(5) by (simp add: example_files(4) um_find_def)
  from lists_well_formed[where s = example_files and es = "[]" and fs = "[48, 32, 16]"
      and t = 1 and a = 208 and new_file = 64] example_files(2,3) pre1
  have f: "lists_are example_files [] [48, 32, 16]"
    "\<exists>s'. RegisterDexFileForNative 1 208 64 example_files = Some s' \<and>
      lists_are s' [] [64, 48, 32, 16]"
    by blast+
  from lists_well_formed[where s = example_files and es = "[]" and fs = "[48, 32, 16]"
      and t = 1 and a = 176 and file_entry = 32] example_files(2,3) pre2
  have "\<exists>s'. DeregisterDexFileForNative 1 176 example_files = Some s' \<and>
      lists_are s' [] (remove1 32 [48, 32, 16])"
    by blast
  then have g: "\<exists>s'. DeregisterDexFileForNative 1 176 example_files = Some s' \<and>
      lists_are s' [] [48, 16]"
    by simp
  from lc da run initial_state_ok i example_created(2,3) d example_files(3,2) f g
  show ?thesis unfolding cs_def by (intro conjI)
qed

section \<open>The memory usage that is reported\<close>

text \<open>
  Claim C6. In every state reached from the initial one by calls that return,
  \<open>GetJITCodeEntryMemUsage\<close> is the sum over the code entries in the list, which are
  the live ones, of the size of a \<open>JITCodeEntry\<close> plus the size of the entry's blob,
  plus two pointers for every key of \<open>g_jit_code_entries\<close>. Creating an entry from a
  symbol file of \<open>S\<close> bytes makes the result larger by \<open>S\<close> plus the size of a
  \<open>JITCodeEntry\<close>; attaching addresses adds two pointers for each; once all of them are
  detached, which deletes the entry, the result is again what it was before the
  creation. Deleting a live entry makes the result smaller by the size of its blob plus
  the size of a \<open>JITCodeEntry\<close>. All sums are sums of \<open>size_t\<close>, as in the source.
\<close>

theorem memory_usage_accounting:
  "(run k cs initial_state = Some s \<longrightarrow>
     (\<exists>es. code_list s es \<and> set es = dom (JITCodeEntry_heap s) \<and>
        GetJITCodeEntryMemUsage s =
          sum_list (map (\<lambda>a. sizeof_JITCodeEntry +
             of_nat (length (the (uint8_heap s (blob_of (JITCodeEntry_heap s) a))))) es) +
          of_nat (card (dom (um_find (g_jit_code_entries s)))) * (2 * sizeof_void_ptr))) \<and>
   (code_entries_ok s es \<and> symfile \<noteq> [] \<and> new_array \<noteq> 0 \<and> new_entry \<noteq> 0 \<and>
    uint8_heap s new_array = None \<and> JITCodeEntry_heap s new_entry = None \<and>
    addrs \<noteq> [] \<and> distinct addrs \<and> length addrs \<le> 2 ^ 32 \<and>
    (\<forall>a\<in>set addrs. um_find (g_jit_code_entries s) a = None) \<and>
    distinct ds \<and> set ds = set addrs \<longrightarrow>
     (\<exists>s1 s2 s3.
        CreateJITCodeEntry k symfile new_array new_entry s = Some (new_entry, s1) \<and>
        GetJITCodeEntryMemUsage s1 =
          GetJITCodeEntryMemUsage s + (of_nat (length symfile) + sizeof_JITCodeEntry) \<and>
        attach_all k new_entry addrs s1 = Some s2 \<and>
        GetJITCodeEntryMemUsage s2 =
          GetJITCodeEntryMemUsage s1 + of_nat (length addrs) * (2 * sizeof_void_ptr) \<and>
        detach_all k new_entry ds s2 = Some s3 \<and>
        JITCodeEntry_heap s3 new_entry = None \<and>
        GetJITCodeEntryMemUsage s3 = GetJITCodeEntryMemUsage s)) \<and>
   (code_entries_ok s es \<and> JITCodeEntry_heap s entry = Some e \<longrightarrow>
     (\<exists>s' bytes. DeleteJITCodeEntry entry s = Some s' \<and>
        uint8_heap s (symfile_addr e) = Some bytes \<and>
        GetJITCodeEntryMemUsage s' =
          GetJITCodeEntryMemUsage s - (of_nat (length bytes) + sizeof_JITCodeEntry)))"
proof (intro conjI impI)
  assume "run k cs initial_state = Some s"
  from run_ok[OF initial_state_ok this] obtain es where ok: "code_entries_ok s es" by blast
  then have l: "code_list s es" "dom (JITCodeEntry_heap s) = set es"
    "g_jit_debug_mem_usage s = sum_list (map (accounted (JITCodeEntry_heap s)) es)"
    "distinct (map fst (g_jit_code_entries s))"
    by (auto simp: code_entries_ok_def)
  have "GetJITCodeEntryMemUsage s =
          sum_list (map (\<lambda>a. sizeof_JITCodeEntry +
             of_nat (length (the (uint8_heap s (blob_of (JITCodeEntry_heap s) a))))) es) +
          of_nat (card (dom (um_find (g_jit_code_entries s)))) * (2 * sizeof_void_ptr)"
    unfolding GetJITCodeEntryMemUsage_def l(3) um_size_card[OF l(4)]
      code_entries_ok_blob_sizes[OF ok]
    by (simp add: mult.assoc)
  with l(1,2) show "\<exists>es. code_list s es \<and> set es = dom (JITCodeEntry_heap s) \<and>
        GetJITCodeEntryMemUsage s =
          sum_list (map (\<lambda>a. sizeof_JITCodeEntry +
             of_nat (length (the (uint8_heap s (blob_of (JITCodeEntry_heap s) a))))) es) +
          of_nat (card (dom (um_find (g_jit_code_entries s)))) * (2 * sizeof_void_ptr)"
    by auto
next
  assume pre: "code_entries_ok s es \<and> symfile \<noteq> [] \<and> new_array \<noteq> 0 \<and> new_entry \<noteq> 0 \<and>
    uint8_heap s new_array = None \<and> JITCodeEntry_heap s new_entry = None \<and>
    addrs \<noteq> [] \<and> distinct addrs \<and> length addrs \<le> 2 ^ 32 \<and>
    (\<forall>a\<in>set addrs. um_find (g_jit_code_entries s) a = None) \<and>
    distinct ds \<and> set ds = set addrs"
  then have k: "k \<longrightarrow> symfile \<noteq> []" by simp
  from pre lifecycle[OF _ k, of s es new_array new_entry addrs ds] obtain s1 s2 s4 where
    f: "CreateJITCodeEntry k symfile new_array new_entry s = Some (new_entry, s1)"
      "attach_all k new_entry addrs s1 = Some s2"
      "g_jit_debug_mem_usage s1 =
         g_jit_debug_mem_usage s + (sizeof_JITCodeEntry + of_nat (length symfile))"
      "g_jit_code_entries s1 = g_jit_code_entries s"
      "g_jit_code_entries s2 = map (\<lambda>a. (a, new_entry)) (rev addrs) @ g_jit_code_entries s"
      "g_jit_debug_mem_usage s2 = g_jit_debug_mem_usage s1"
      "detach_all k new_entry ds s2 = Some s4"
      "JITCodeEntry_heap s4 new_entry = None"
      "g_jit_code_entries s4 = g_jit_code_entries s"
      "g_jit_debug_mem_usage s4 = g_jit_debug_mem_usage s"
    by blast
  have u1: "GetJITCodeEntryMemUsage s1 =
          GetJITCodeEntryMemUsage s + (of_nat (length symfile) + sizeof_JITCodeEntry)"
    by (simp add: GetJITCodeEntryMemUsage_def f(3,4))
  have u2: "GetJITCodeEntryMemUsage s2 =
          GetJITCodeEntryMemUsage s1 + of_nat (length addrs) * (2 * sizeof_void_ptr)"
    by (simp add: GetJITCodeEntryMemUsage_def f(4,5,6) um_size_def algebra_simps)
  have u4: "GetJITCodeEntryMemUsage s4 = GetJITCodeEntryMemUsage s"
    by (simp add: GetJITCodeEntryMemUsage_def f(9,10))
  from f(1,2,7,8) u1 u2 u4 show "\<exists>s1 s2 s3.
        CreateJITCodeEntry k symfile new_array new_entry s = Some (new_entry, s1) \<and>
        GetJITCodeEntryMemUsage s1 =
          GetJITCodeEntryMemUsage s + (of_nat (length symfile) + sizeof_JITCodeEntry) \<and>
        attach_all k new_entry addrs s1 = Some s2 \<and>
        GetJITCodeEntryMemUsage s2 =
          GetJITCodeEntryMemUsage s1 + of_nat (length addrs) * (2 * sizeof_void_ptr) \<and>
        detach_all k new_entry ds s2 = Some s3 \<and>
        JITCodeEntry_heap s3 new_entry = None \<and>
        GetJITCodeEntryMemUsage s3 = GetJITCodeEntryMemUsage s"
    by blast
next
  assume pre: "code_entries_ok s es \<and> JITCodeEntry_heap s entry = Some e"
  then have ok: "code_entries_ok s es" and e: "JITCodeEntry_heap s entry = Some e" by auto
  from e have mem: "entry \<in> set es" using code_entries_ok_live(1)[OF ok, of entry] by simp
  from code_entries_ok_blob[OF ok e] obtain bytes where
    b: "uint8_heap s (symfile_addr e) = Some bytes" "symfile_size e = of_nat (length bytes)"
    by auto
  from Delete_ok[OF ok mem] e obtain s' where
    d: "DeleteJITCodeEntry entry s = Some s'"
      "g_jit_debug_mem_usage s' = g_jit_debug_mem_usage s - (sizeof_JITCodeEntry + symfile_size e)"
      "g_jit_code_entries s' = g_jit_code_entries s"
    by auto
  have "GetJITCodeEntryMemUsage s' =
          GetJITCodeEntryMemUsage s - (of_nat (length bytes) + sizeof_JITCodeEntry)"
    by (simp add: GetJITCodeEntryMemUsage_def d(2,3) b(2))
  with d(1) b(1) show "\<exists>s' bytes. DeleteJITCodeEntry entry s = Some s' \<and>
        uint8_heap s (symfile_addr e) = Some bytes \<and>
        GetJITCodeEntryMemUsage s' =
          GetJITCodeEntryMemUsage s - (of_nat (length bytes) + sizeof_JITCodeEntry)"
    by blast
qed

theorem memory_usage_accounting_witness:
  "run True [CreateCodeEntry [127, 69, 76, 70] 1280 256, Attach 256 4096] initial_state =
     Some example_attached \<and>
   (\<exists>es. code_list example_attached es \<and> set es = dom (JITCodeEntry_heap example_attached) \<and>
      GetJITCodeEntryMemUsage example_attached =
        sum_list (map (\<lambda>a. sizeof_JITCodeEntry +
           of_nat (length (the (uint8_heap example_attached
             (blob_of (JITCodeEntry_heap example_attached) a))))) es) +
        of_nat (card (dom (um_find (g_jit_code_entries example_attached)))) *
          (2 * sizeof_void_ptr)) \<and>
   code_entries_ok initial_state [] \<and> GetJITCodeEntryMemUsage initial_state = 0 \<and>
   distinct [4096, 8192, 12288 :: addr] \<and> length [4096, 8192, 12288 :: addr] \<le> 2 ^ 32 \<and>
   distinct [8192, 4096, 12288 :: addr] \<and>
   set [8192, 4096, 12288 :: addr] = set [4096, 8192, 12288] \<and>
   (\<exists>s1 s2 s3.
      CreateJITCodeEntry True [127, 69, 76, 70] 1280 256 initial_state = Some (256, s1) \<and>
      GetJITCodeEntryMemUsage s1 = 44 \<and>
      attach_all True 256 [4096, 8192, 12288] s1 = Some s2 \<and>
      GetJITCodeEntryMemUsage s2 = 92 \<and>
      detach_all True 256 [8192, 4096, 12288] s2 = Some s3 \<and>
      JITCodeEntry_heap s3 256 = None \<and>
      GetJITCodeEntryMemUsage s3 = 0) \<and>
   code_entries_ok example_created [256] \<and>
   (\<exists>s' bytes. DeleteJITCodeEntry 256 example_created = Some s' \<and>
      uint8_heap example_created 1280 = Some bytes \<and>
      GetJITCodeEntryMemUsage s' =
        GetJITCodeEntryMemUsage example_created - (of_nat (length bytes) + sizeof_JITCodeEntry))"
proof -
  have fresh: "uint8_heap initial_state 1280 = None" "JITCodeEntry_heap initial_state 256 = None"
    by (simp_all add: initial_state_def)
  have r: "run True [CreateCodeEntry [127, 69, 76, 70] 1280 256, Attach 256 4096] initial_state =
     Some example_attached"
    by (simp add: fresh example_created(1) example_attached(1))
  from memory_usage_accounting[where k = True
      and cs = "[CreateCodeEntry [127, 69, 76, 70] 1280 256, Attach 256 4096]"
      and s = example_attached] r
  have reach: "\<exists>es. code_list example_attached es \<and> set es = dom (JITCodeEntry_heap example_attached) \<and>
      GetJITCodeEntryMemUsage example_attached =
        sum_list (map (\<lambda>a. sizeof_JITCodeEntry +
           of_nat (length (the (uint8_heap example_attached
             (blob_of (JITCodeEntry_heap example_attached) a))))) es) +
        of_nat (card (dom (um_find (g_jit_code_entries example_attached)))) *
          (2 * sizeof_void_ptr)"
    by blast
  have u0: "GetJITCodeEntryMemUsage initial_state = 0"
    by (simp add: GetJITCodeEntryMemUsage_def initial_state_def um_size_def)
  have pre: "code_entries_ok initial_state [] \<and> [127, 69, 76, 70 :: uint8_t] \<noteq> [] \<and>
    (1280 :: addr) \<noteq> 0 \<and> (256 :: addr) \<noteq> 0 \<and>
    uint8_heap initial_state 1280 = None \<and> JITCodeEntry_heap initial_state 256 = None \<and>
    [4096, 8192, 12288 :: addr] \<noteq> [] \<and> distinct [4096, 8192, 12288 :: addr] \<and>
    length [4096, 8192, 12288 :: addr] \<le> 2 ^ 32 \<and>
    (\<forall>a\<in>set [4096, 8192, 12288 :: addr]. um_find (g_jit_code_entries initial_state) a = None) \<and>
    distinct [8192, 4096, 12288 :: addr] \<and>
    set [8192, 4096, 12288 :: addr] = set [4096, 8192, 12288]"
    using initial_state_ok(1) fresh by (auto simp: initial_state_def um_find_def)
  from memory_usage_accounting[where k = True and s = initial_state and es = "[]"
      and symfile = "[127, 69, 76, 70]" and new_array = 1280 and new_entry = 256
      and addrs = "[4096, 8192, 12288]" and ds = "[8192, 4096, 12288]"] pre
  obtain s1 s2 s3 where l:
    "CreateJITCodeEntry True [127, 69, 76, 70] 1280 256 initial_state = Some (256, s1)"
    "GetJITCodeEntryMemUsage s1 =
       GetJITCodeEntryMemUsage initial_state +
         (of_nat (length [127, 69, 76, 70 :: uint8_t]) + sizeof_JITCodeEntry)"
    "attach_all True 256 [4096, 8192, 12288] s1 = Some s2"
    "GetJITCodeEntryMemUsage s2 =
       GetJITCodeEntryMemUsage s1 +
         of_nat (length [4096, 8192, 12288 :: addr]) * (2 * sizeof_void_ptr)"
    "detach_all True 256 [8192, 4096, 12288] s2 = Some s3"
    "JITCodeEntry_heap s3 256 = None"
    "GetJITCodeEntryMemUsage s3 = GetJITCodeEntryMemUsage initial_state"
    by blast
  have "GetJITCodeEntryMemUsage s1 = 44" "GetJITCodeEntryMemUsage s2 = 92"
    "GetJITCodeEntryMemUsage s3 = 0"
    by (simp_all add: l(2,4,7) u0 sizeof_JITCodeEntry_def sizeof_void_ptr_def)
  with l(1,3,5,6) have life: "\<exists>s1 s2 s3.
      CreateJITCodeEntry True [127, 69, 76, 70] 1280 256 initial_state = Some (256, s1) \<and>
      GetJITCodeEntryMemUsage s1 = 44 \<and>
      attach_all True 256 [4096, 8192, 12288] s1 = Some s2 \<and>
      GetJITCodeEntryMemUsage s2 = 92 \<and>
      detach_all True 256 [8192, 4096, 12288] s2 = Some s3 \<and>
      JITCodeEntry_heap s3 256 = None \<and>
      GetJITCodeEntryMemUsage s3 = 0"
    by blast
  from memory_usage_accounting[where s = example_created and es = "[256]" and entry = 256
      and e = "\<lparr>jit_next = 0, jit_prev = 0, symfile_addr = 1280, symfile_size = 4, ref_count = 0\<rparr>"]
    example_created(2,4)
  have del: "\<exists>s' bytes. DeleteJITCodeEntry 256 example_created = Some s' \<and>
      uint8_heap example_created 1280 = Some bytes \<and>
      GetJITCodeEntryMemUsage s' =
        GetJITCodeEntryMemUsage example_created - (of_nat (length bytes) + sizeof_JITCodeEntry)"
    by simp
  from pre have p: "distinct [4096, 8192, 12288 :: addr]" "length [4096, 8192, 12288 :: addr] \<le> 2 ^ 32"
    "distinct [8192, 4096, 12288 :: addr]"
    "set [8192, 4096, 12288 :: addr] = set [4096, 8192, 12288]"
    by blast+
  from r reach initial_state_ok(1) u0 p life example_created(2) del
  show ?thesis by (intro conjI)
qed

section \<open>The order of updates, notification and release\<close>



section \<open>Who takes the lock\<close>

text \<open>
  Claim C8, as amended. In a state that satisfies both invariants, consider a call that
  returns. \<open>RegisterDexFileForNative\<close> and \<open>DeregisterDexFileForNative\<close> find the lock
  free, take it before they change anything, release it after their last change and
  leave it free; they record nothing else, so they do not call the notification
  function. \<open>CreateJITCodeEntry\<close>, \<open>DeleteJITCodeEntry\<close>,
  \<open>IncrementJITCodeEntryRefcount\<close> and \<open>DecrementJITCodeEntryRefcount\<close> neither take
  nor release the lock: its owner is the same after the call as before, the only thing
  they record is at most one call of the notification function, and at that call the
  owner of the lock is the one the caller had set.
\<close>

theorem lock_discipline:
  assumes cok: "code_entries_ok s es" and fok: "file_entries_ok s fs"
    and c: "call k c s = Some s'"
  shows "(file_call c = Some t \<longrightarrow>
           native_debug_interface_lock s = None \<and> native_debug_interface_lock s' = None \<and>
           trace s' = trace s @
             [(LockAcquired, memory.truncate (s\<lparr>native_debug_interface_lock := Some t\<rparr>)),
              (LockReleased, memory.truncate (s'\<lparr>native_debug_interface_lock := Some t\<rparr>))]) \<and>
         (code_call c \<longrightarrow>
           native_debug_interface_lock s' = native_debug_interface_lock s \<and>
           (\<exists>evs. trace s' = trace s @ evs \<and> length evs \<le> 1 \<and>
              (\<forall>ev\<in>set evs. fst ev = RegisterCodeCalled \<and>
                 native_debug_interface_lock (snd ev) = native_debug_interface_lock s)))"
proof (cases c)
  case (RegisterFile t0 a new)
  with c have fresh: "DEXFileEntry_heap s new = None"
    and r: "RegisterDexFileForNative t0 a new s = Some s'"
    by (auto split: if_splits)
  note free = Register_SomeD(1)[OF r]
  have "native_debug_interface_lock s' = None \<and>
        trace s' = trace s @
             [(LockAcquired, memory.truncate (s\<lparr>native_debug_interface_lock := Some t0\<rparr>)),
              (LockReleased, memory.truncate (s'\<lparr>native_debug_interface_lock := Some t0\<rparr>))]"
  proof (cases "um_count (g_dexfile_entries s) a = 0")
    case True
    with Register_SomeD(2)[OF r] have nz: "new \<noteq> 0" by simp
    from Register_ok[OF fok free True nz fresh, of t0] r show ?thesis by auto
  next
    case False
    from Register_present[OF free False, of t0 new] r
    have "s' = s\<lparr>trace := trace s @
        [(LockAcquired, memory.truncate (s\<lparr>native_debug_interface_lock := Some t0\<rparr>)),
         (LockReleased, memory.truncate (s\<lparr>native_debug_interface_lock := Some t0\<rparr>))]\<rparr>"
      by simp
    then show ?thesis using free by (simp add: memory.defs)
  qed
  with free RegisterFile show ?thesis by auto
next
  case (DeregisterFile t0 a)
  with c have r: "DeregisterDexFileForNative t0 a s = Some s'" by simp
  note free = Deregister_SomeD[OF r]
  have "native_debug_interface_lock s' = None \<and>
        trace s' = trace s @
             [(LockAcquired, memory.truncate (s\<lparr>native_debug_interface_lock := Some t0\<rparr>)),
              (LockReleased, memory.truncate (s'\<lparr>native_debug_interface_lock := Some t0\<rparr>))]"
  proof (cases "um_find (g_dexfile_entries s) a")
    case None
    from Deregister_absent[OF free None, of t0] r
    have "s' = s\<lparr>trace := trace s @
        [(LockAcquired, memory.truncate (s\<lparr>native_debug_interface_lock := Some t0\<rparr>)),
         (LockReleased, memory.truncate (s\<lparr>native_debug_interface_lock := Some t0\<rparr>))]\<rparr>"
      by simp
    then show ?thesis using free by (simp add: memory.defs)
  next
    case (Some entry)
    from Deregister_ok[OF fok free Some, of t0] r show ?thesis by auto
  qed
  with free DeregisterFile show ?thesis by auto
next
  case (CreateCodeEntry symfile new_array new_entry)
  with c obtain r where fresh: "uint8_heap s new_array = None" "JITCodeEntry_heap s new_entry = None"
    and r: "CreateJITCodeEntry k symfile new_array new_entry s = Some r" "s' = snd r"
    by (auto split: if_splits)
  from Create_ok[OF cok Create_SomeD[OF r(1)] fresh] r
  have s': "trace s' = trace s @ [(RegisterCodeCalled, memory.truncate s')]"
    "native_debug_interface_lock s' = native_debug_interface_lock s"
    by auto
  have "native_debug_interface_lock (memory.truncate s') = native_debug_interface_lock s"
    by (simp add: memory.defs s'(2))
  with s' have "\<exists>evs. trace s' = trace s @ evs \<and> length evs \<le> 1 \<and>
              (\<forall>ev\<in>set evs. fst ev = RegisterCodeCalled \<and>
                 native_debug_interface_lock (snd ev) = native_debug_interface_lock s)"
    by (intro exI[of _ "[(RegisterCodeCalled, memory.truncate s')]"]) simp
  with s'(2) CreateCodeEntry show ?thesis by simp
next
  case (DeleteCodeEntry entry)
  with c have r: "DeleteJITCodeEntry entry s = Some s'" by simp
  from Delete_SomeD(2)[OF r] have "entry \<in> set es"
    using code_entries_ok_live(1)[OF cok, of entry] by auto
  from Delete_ok[OF cok this] r obtain e m where
    s': "trace s' = trace s @ [(RegisterCodeCalled, m)]"
      "m = (memory.truncate s')\<lparr>JITCodeEntry_heap := (JITCodeEntry_heap s')(entry \<mapsto> e),
                               uint8_heap := uint8_heap s\<rparr>"
      "native_debug_interface_lock s' = native_debug_interface_lock s"
    by auto
  have "native_debug_interface_lock m = native_debug_interface_lock s"
    by (simp add: s'(2) memory.defs s'(3))
  with s'(1) have "\<exists>evs. trace s' = trace s @ evs \<and> length evs \<le> 1 \<and>
              (\<forall>ev\<in>set evs. fst ev = RegisterCodeCalled \<and>
                 native_debug_interface_lock (snd ev) = native_debug_interface_lock s)"
    by (intro exI[of _ "[(RegisterCodeCalled, m)]"]) simp
  with s'(3) DeleteCodeEntry show ?thesis by simp
next
  case (Attach entry a)
  with c have r: "IncrementJITCodeEntryRefcount k entry a s = Some s'" by simp
  from Increment_SomeD(2)[OF r] obtain e where e: "JITCodeEntry_heap s entry = Some e" by blast
  from Increment_result[OF Increment_SomeD(1)[OF r] e Increment_SomeD(3)[OF r]] r
  have s': "s' = s\<lparr>JITCodeEntry_heap := (JITCodeEntry_heap s)(entry \<mapsto> e\<lparr>ref_count := ref_count e + 1\<rparr>),
             g_jit_code_entries := um_emplace a entry (g_jit_code_entries s)\<rparr>"
    by simp
  have "native_debug_interface_lock s' = native_debug_interface_lock s" "trace s' = trace s @ []"
    by (subst s', simp)+
  with Attach show ?thesis by (auto intro!: exI[of _ "[]"])
next
  case (Detach entry a)
  with c have r: "DecrementJITCodeEntryRefcount k entry a s = Some s'" by simp
  from Decrement_SomeD(2)[OF r] obtain e where e: "JITCodeEntry_heap s entry = Some e" by blast
  define s1 where "s1 = s\<lparr>JITCodeEntry_heap := (JITCodeEntry_heap s)(entry \<mapsto> e\<lparr>ref_count := ref_count e - 1\<rparr>)\<rparr>"
  note dec = Decrement_ok[OF cok e Decrement_SomeD(3)[OF r] s1_def]
  show ?thesis
  proof (cases "ref_count e - 1 = 0")
    case False
    from dec(2)[OF False] r
    have s': "s' = s1\<lparr>g_jit_code_entries := um_erase a (g_jit_code_entries s)\<rparr>" by auto
    have "native_debug_interface_lock s' = native_debug_interface_lock s" "trace s' = trace s @ []"
      by (subst s', simp add: s1_def)+
    with Detach show ?thesis by (auto intro!: exI[of _ "[]"])
  next
    case True
    from dec(3)[OF True] r obtain s2 where
      s2: "DeleteJITCodeEntry entry s1 = Some s2"
        "s' = s2\<lparr>g_jit_code_entries := um_erase a (g_jit_code_entries s)\<rparr>" by auto
    from e have "entry \<in> set es"
      using code_entries_ok_live(1)[OF cok, of entry] by auto
    from Delete_ok[OF dec(1) this] s2(1) obtain e' m where
      d: "trace s2 = trace s1 @ [(RegisterCodeCalled, m)]"
        "m = (memory.truncate s2)\<lparr>JITCodeEntry_heap := (JITCodeEntry_heap s2)(entry \<mapsto> e'),
                               uint8_heap := uint8_heap s1\<rparr>"
        "native_debug_interface_lock s2 = native_debug_interface_lock s1"
      by auto
    have lk: "native_debug_interface_lock s' = native_debug_interface_lock s"
      by (subst s2(2)) (simp add: d(3) s1_def)
    have tr: "trace s' = trace s @ [(RegisterCodeCalled, m)]"
      by (subst s2(2)) (simp add: d(1) s1_def)
    have "native_debug_interface_lock m = native_debug_interface_lock s"
      by (simp add: d(2) memory.defs d(3) s1_def)
    with tr have "\<exists>evs. trace s' = trace s @ evs \<and> length evs \<le> 1 \<and>
              (\<forall>ev\<in>set evs. fst ev = RegisterCodeCalled \<and>
                 native_debug_interface_lock (snd ev) = native_debug_interface_lock s)"
      by (intro exI[of _ "[(RegisterCodeCalled, m)]"]) simp
    with lk Detach show ?thesis by simp
  qed
next
  case (CallerLock t0)
  then show ?thesis by simp
next
  case (CallerUnlock t0)
  then show ?thesis by simp
qed

text \<open>
  The four functions on code entries do not take the lock themselves. Called in the
  initial state, where nobody holds the lock, \<open>CreateJITCodeEntry\<close> returns all the
  same; it records the call of the notification function and no acquisition of the
  lock, and at that call the lock is free.
\<close>

theorem lock_discipline_counterexample:
  "native_debug_interface_lock initial_state = None \<and>
   create_without_lock \<noteq> None \<and>
   map fst (trace (snd (the create_without_lock))) = [RegisterCodeCalled] \<and>
   map (native_debug_interface_lock \<circ> snd) (trace (snd (the create_without_lock))) = [None]"
proof -
  have k: "True \<longrightarrow> [127, 69, 76, 70 :: uint8_t] \<noteq> []" by simp
  have fresh: "uint8_heap initial_state 1280 = None" "JITCodeEntry_heap initial_state 256 = None"
    by (simp_all add: initial_state_def)
  from Create_ok[OF initial_state_ok(1) k _ _ fresh] obtain s' where
    s': "CreateJITCodeEntry True [127, 69, 76, 70] 1280 256 initial_state = Some (256, s')"
      "trace s' = trace initial_state @ [(RegisterCodeCalled, memory.truncate s')]"
      "native_debug_interface_lock s' = native_debug_interface_lock initial_state"
    by auto
  have free: "native_debug_interface_lock initial_state = None" "trace initial_state = []"
    by (simp_all add: initial_state_def)
  have "native_debug_interface_lock (memory.truncate s') = None"
    by (simp add: memory.defs s'(3) free)
  with s' free show ?thesis by (simp add: create_without_lock_def)
qed

theorem lock_discipline_witness:
  "code_entries_ok initial_state [] \<and> file_entries_ok initial_state [] \<and>
   file_call (RegisterFile 1 160 16) = Some 1 \<and>
   (\<exists>s'. call True (RegisterFile 1 160 16) initial_state = Some s' \<and>
      native_debug_interface_lock initial_state = None \<and>
      native_debug_interface_lock s' = None \<and>
      trace s' = trace initial_state @
        [(LockAcquired, memory.truncate (initial_state\<lparr>native_debug_interface_lock := Some 1\<rparr>)),
         (LockReleased, memory.truncate (s'\<lparr>native_debug_interface_lock := Some 1\<rparr>))]) \<and>
   code_call (CreateCodeEntry [127, 69, 76, 70] 1280 256) \<and>
   code_entries_ok (initial_state\<lparr>native_debug_interface_lock := Some 7\<rparr>) [] \<and>
   file_entries_ok (initial_state\<lparr>native_debug_interface_lock := Some 7\<rparr>) [] \<and>
   (\<exists>s' m. call True (CreateCodeEntry [127, 69, 76, 70] 1280 256)
        (initial_state\<lparr>native_debug_interface_lock := Some 7\<rparr>) = Some s' \<and>
      native_debug_interface_lock s' = Some 7 \<and>
      trace s' = [(RegisterCodeCalled, m)] \<and>
      native_debug_interface_lock m = Some 7)"
proof -
  have i: "native_debug_interface_lock initial_state = None"
    "um_count (g_dexfile_entries initial_state) 160 = 0" "DEXFileEntry_heap initial_state 16 = None"
    "trace initial_state = []"
    by (simp_all add: initial_state_def um_count_def)
  from Register_ok[OF initial_state_ok(2) i(1,2) _ i(3), of 1] obtain s1 where
    "RegisterDexFileForNative 1 160 16 initial_state = Some s1" by auto
  then have c1: "call True (RegisterFile 1 160 16) initial_state = Some s1"
    by (simp add: i(3))
  from lock_discipline[OF initial_state_ok c1, where t = 1]
  have "native_debug_interface_lock initial_state = None \<and>
      native_debug_interface_lock s1 = None \<and>
      trace s1 = trace initial_state @
        [(LockAcquired, memory.truncate (initial_state\<lparr>native_debug_interface_lock := Some 1\<rparr>)),
         (LockReleased, memory.truncate (s1\<lparr>native_debug_interface_lock := Some 1\<rparr>))]"
    by simp
  with c1 have filed: "\<exists>s'. call True (RegisterFile 1 160 16) initial_state = Some s' \<and>
      native_debug_interface_lock initial_state = None \<and>
      native_debug_interface_lock s' = None \<and>
      trace s' = trace initial_state @
        [(LockAcquired, memory.truncate (initial_state\<lparr>native_debug_interface_lock := Some 1\<rparr>)),
         (LockReleased, memory.truncate (s'\<lparr>native_debug_interface_lock := Some 1\<rparr>))]"
    by blast
  define L where "L = initial_state\<lparr>native_debug_interface_lock := Some 7\<rparr>"
  have okL: "code_entries_ok L []" "file_entries_ok L []"
    using initial_state_ok
      code_entries_ok_frame[of L initial_state "[]"] file_entries_ok_frame[of L initial_state "[]"]
    by (simp_all add: L_def)
  have fresh: "uint8_heap L 1280 = None" "JITCodeEntry_heap L 256 = None"
    "native_debug_interface_lock L = Some 7" "trace L = []"
    by (simp_all add: L_def initial_state_def)
  have k: "True \<longrightarrow> [127, 69, 76, 70 :: uint8_t] \<noteq> []" by simp
  from Create_ok[OF okL(1) k _ _ fresh(1,2)] obtain s2 where
    "CreateJITCodeEntry True [127, 69, 76, 70] 1280 256 L = Some (256, s2)" by auto
  then have c2: "call True (CreateCodeEntry [127, 69, 76, 70] 1280 256) L = Some s2"
    by (simp add: fresh)
  from lock_discipline[OF okL c2]
  have lk: "native_debug_interface_lock s2 = native_debug_interface_lock L"
    and "\<exists>evs. trace s2 = trace L @ evs \<and> length evs \<le> 1 \<and>
              (\<forall>ev\<in>set evs. fst ev = RegisterCodeCalled \<and>
                 native_debug_interface_lock (snd ev) = native_debug_interface_lock L)"
    by simp_all
  then obtain evs where evs: "trace s2 = evs" "length evs \<le> 1"
    "\<forall>ev\<in>set evs. fst ev = RegisterCodeCalled \<and> native_debug_interface_lock (snd ev) = Some 7"
    by (auto simp: fresh)
  from Create_ok[OF okL(1) k _ _ fresh(1,2)]
    \<open>CreateJITCodeEntry True [127, 69, 76, 70] 1280 256 L = Some (256, s2)\<close>
  have "trace s2 = [(RegisterCodeCalled, memory.truncate s2)]" by (auto simp: fresh)
  with evs have "trace s2 = [(RegisterCodeCalled, memory.truncate s2)]"
    "native_debug_interface_lock (memory.truncate s2) = Some 7"
    by auto
  with c2 lk have coded: "\<exists>s' m. call True (CreateCodeEntry [127, 69, 76, 70] 1280 256) L = Some s' \<and>
      native_debug_interface_lock s' = Some 7 \<and>
      trace s' = [(RegisterCodeCalled, m)] \<and>
      native_debug_interface_lock m = Some 7"
    by (auto simp: fresh)
  have fc: "file_call (RegisterFile 1 160 16) = Some 1"
    "code_call (CreateCodeEntry [127, 69, 76, 70] 1280 256)"
    by simp_all
  from initial_state_ok fc filed okL coded show ?thesis
    unfolding L_def by (intro conjI)
qed

section \<open>What a new code entry holds\<close>

text \<open>
  Claim C9. For a non-empty byte sequence, in a state that satisfies the invariant of
  the code side and with the allocator returning non-null addresses at which nothing
  is live, \<open>CreateJITCodeEntry\<close> returns the new entry; its blob is the new array,
  which holds exactly the bytes of the input, no other array is touched, its size
  field is the length of the input (as a number too, the length being below \<open>2^64\<close>),
  and its reference count is 0. With the empty sequence the call fails its
  \<open>DCHECK\<close>.
\<close>

theorem CreateJITCodeEntry_copies_symfile:
  assumes ok: "code_entries_ok s es"
    and symfile: "symfile \<noteq> []"
    and nz: "new_array \<noteq> 0" "new_entry \<noteq> 0"
    and fresh: "uint8_heap s new_array = None" "JITCodeEntry_heap s new_entry = None"
  shows "\<exists>s' e. CreateJITCodeEntry k symfile new_array new_entry s = Some (new_entry, s') \<and>
     JITCodeEntry_heap s' new_entry = Some e \<and>
     ref_count e = 0 \<and>
     symfile_addr e = new_array \<and>
     uint8_heap s' new_array = Some symfile \<and>
     (\<forall>p. p \<noteq> new_array \<longrightarrow> uint8_heap s' p = uint8_heap s p) \<and>
     symfile_size e = of_nat (length symfile) \<and>
     (length symfile < 2 ^ 64 \<longrightarrow> unat (symfile_size e) = length symfile) \<and>
     CreateJITCodeEntry True [] new_array new_entry s = None"
proof -
  from symfile have k: "k \<longrightarrow> symfile \<noteq> []" by simp
  from Create_ok[OF ok k nz fresh] obtain s' where
    s': "CreateJITCodeEntry k symfile new_array new_entry s = Some (new_entry, s')"
      "JITCodeEntry_heap s' new_entry = Some
        \<lparr>jit_next = first_entry (jit_debug_descriptor s), jit_prev = 0, symfile_addr = new_array,
         symfile_size = of_nat (length symfile), ref_count = 0\<rparr>"
      "uint8_heap s' = (uint8_heap s)(new_array \<mapsto> symfile)"
    by blast
  have size: "unat (of_nat (length symfile) :: 64 word) = length symfile"
    if "length symfile < 2 ^ 64"
    using that by (simp add: unat_of_nat take_bit_nat_eq_self)
  have empty: "CreateJITCodeEntry True [] new_array new_entry s = None"
    by (simp add: CreateJITCodeEntry_def DCHECK_def)
  from s' size empty show ?thesis by auto
qed

theorem CreateJITCodeEntry_copies_symfile_witness:
  "code_entries_ok initial_state [] \<and> [127, 69, 76, 70 :: uint8_t] \<noteq> [] \<and>
   uint8_heap initial_state 1280 = None \<and> JITCodeEntry_heap initial_state 256 = None \<and>
   (\<exists>s' e. CreateJITCodeEntry True [127, 69, 76, 70] 1280 256 initial_state = Some (256, s') \<and>
      JITCodeEntry_heap s' 256 = Some e \<and> ref_count e = 0 \<and> symfile_addr e = 1280 \<and>
      uint8_heap s' 1280 = Some [127, 69, 76, 70] \<and> unat (symfile_size e) = 4)"
proof -
  have ok: "code_entries_ok initial_state []"
    by (simp add: code_entries_ok_def code_list_def initial_state_def)
  have symfile: "[127, 69, 76, 70 :: uint8_t] \<noteq> []" by simp
  have nz: "(1280 :: addr) \<noteq> 0" "(256 :: addr) \<noteq> 0" by simp_all
  have fresh: "uint8_heap initial_state 1280 = None" "JITCodeEntry_heap initial_state 256 = None"
    by (simp_all add: initial_state_def)
  from CreateJITCodeEntry_copies_symfile[OF ok symfile nz fresh, of True]
  obtain s' e where
    "CreateJITCodeEntry True [127, 69, 76, 70] 1280 256 initial_state = Some (256, s')"
    "JITCodeEntry_heap s' 256 = Some e" "ref_count e = 0" "symfile_addr e = 1280"
    "uint8_heap s' 1280 = Some [127, 69, 76, 70]"
    "length [127, 69, 76, 70 :: uint8_t] < 2 ^ 64 \<longrightarrow>
       unat (symfile_size e) = length [127, 69, 76, 70 :: uint8_t]"
    by blast
  with ok symfile fresh show ?thesis by auto
qed

section \<open>What a change of the reference count leaves alone\<close>

text \<open>
  Claim C10. An \<open>IncrementJITCodeEntryRefcount\<close> that returns changes the reference
  count of its entry, which becomes one more, and the map \<open>g_jit_code_entries\<close>, and
  nothing else: the descriptor, both change counters, the head of the file list, all
  link fields and so both lists, the blobs, the memory usage and the lock are as
  before, and the notification function is not called. The same holds for a
  \<open>DecrementJITCodeEntryRefcount\<close> that returns and leaves the reference count
  different from zero.
\<close>

theorem refcount_only_changes:
  "(IncrementJITCodeEntryRefcount k entry a s = Some s' \<longrightarrow>
      debugger_view_unchanged s s' \<and>
      (\<forall>es. code_list s' es = code_list s es) \<and> (\<forall>fs. file_list s' fs = file_list s fs) \<and>
      (\<exists>e. JITCodeEntry_heap s entry = Some e \<and>
           JITCodeEntry_heap s' = (JITCodeEntry_heap s)(entry \<mapsto> e\<lparr>ref_count := ref_count e + 1\<rparr>)) \<and>
      g_jit_code_entries s' = um_emplace a entry (g_jit_code_entries s)) \<and>
   (DecrementJITCodeEntryRefcount k entry a s = Some s'' \<and>
    JITCodeEntry_heap s entry = Some e \<and> ref_count e - 1 \<noteq> 0 \<longrightarrow>
      debugger_view_unchanged s s'' \<and>
      (\<forall>es. code_list s'' es = code_list s es) \<and> (\<forall>fs. file_list s'' fs = file_list s fs) \<and>
      JITCodeEntry_heap s'' = (JITCodeEntry_heap s)(entry \<mapsto> e\<lparr>ref_count := ref_count e - 1\<rparr>) \<and>
      g_jit_code_entries s'' = um_erase a (g_jit_code_entries s))"
proof (intro conjI impI)
  assume r: "IncrementJITCodeEntryRefcount k entry a s = Some s'"
  from Increment_SomeD(2)[OF r] obtain e where e: "JITCodeEntry_heap s entry = Some e" by blast
  from Increment_result[OF Increment_SomeD(1)[OF r] e Increment_SomeD(3)[OF r]] r
  have s': "s' = s\<lparr>JITCodeEntry_heap := (JITCodeEntry_heap s)(entry \<mapsto> e\<lparr>ref_count := ref_count e + 1\<rparr>),
             g_jit_code_entries := um_emplace a entry (g_jit_code_entries s)\<rparr>"
    by simp
  show v: "debugger_view_unchanged s s'"
    by (subst s') (simp add: debugger_view_unchanged_def e)
  show "\<forall>es. code_list s' es = code_list s es" "\<forall>fs. file_list s' fs = file_list s fs"
    using debugger_view_unchanged_lists[OF v] by auto
  show "\<exists>e. JITCodeEntry_heap s entry = Some e \<and>
           JITCodeEntry_heap s' = (JITCodeEntry_heap s)(entry \<mapsto> e\<lparr>ref_count := ref_count e + 1\<rparr>)"
    by (subst s') (simp add: e)
  show "g_jit_code_entries s' = um_emplace a entry (g_jit_code_entries s)"
    by (subst s') simp
next
  assume pre: "DecrementJITCodeEntryRefcount k entry a s = Some s'' \<and>
    JITCodeEntry_heap s entry = Some e \<and> ref_count e - 1 \<noteq> 0"
  then have r: "DecrementJITCodeEntryRefcount k entry a s = Some s''"
    and e: "JITCodeEntry_heap s entry = Some e" and rc: "ref_count e - 1 \<noteq> 0"
    by auto
  from Decrement_result[OF Decrement_SomeD(1)[OF r] e Decrement_SomeD(3)[OF r] refl] r rc
  have s'': "s'' = s\<lparr>JITCodeEntry_heap := (JITCodeEntry_heap s)(entry \<mapsto> e\<lparr>ref_count := ref_count e - 1\<rparr>),
             g_jit_code_entries := um_erase a (g_jit_code_entries s)\<rparr>"
    by simp
  show v: "debugger_view_unchanged s s''"
    by (subst s'') (simp add: debugger_view_unchanged_def e)
  show "\<forall>es. code_list s'' es = code_list s es" "\<forall>fs. file_list s'' fs = file_list s fs"
    using debugger_view_unchanged_lists[OF v] by auto
  show "JITCodeEntry_heap s'' = (JITCodeEntry_heap s)(entry \<mapsto> e\<lparr>ref_count := ref_count e - 1\<rparr>)"
    by (subst s'') simp
  show "g_jit_code_entries s'' = um_erase a (g_jit_code_entries s)"
    by (subst s'') simp
qed

theorem refcount_only_changes_witness:
  "IncrementJITCodeEntryRefcount True 256 4096 example_created = Some example_attached \<and>
   debugger_view_unchanged example_created example_attached \<and>
   JITCodeEntry_heap example_attached 256 =
     Some \<lparr>jit_next = 0, jit_prev = 0, symfile_addr = 1280, symfile_size = 4, ref_count = 1\<rparr> \<and>
   g_jit_code_entries example_attached = [(4096, 256)] \<and>
   (\<exists>s''. DecrementJITCodeEntryRefcount True 256 8192 example_attached_twice = Some s'' \<and>
      debugger_view_unchanged example_attached_twice s'' \<and>
      JITCodeEntry_heap s'' 256 =
        Some \<lparr>jit_next = 0, jit_prev = 0, symfile_addr = 1280, symfile_size = 4, ref_count = 1\<rparr> \<and>
      g_jit_code_entries s'' = [(4096, 256)])"
proof -
  from refcount_only_changes[where k = True and entry = 256 and a = 4096 and s = example_created
      and s' = example_attached] example_attached(1)
  have inc: "debugger_view_unchanged example_created example_attached" by blast
  define E where "E = \<lparr>jit_next = 0, jit_prev = 0, symfile_addr = 1280 :: addr,
     symfile_size = 4 :: 64 word, ref_count = 2 :: 32 word\<rparr>"
  have rc: "ref_count E - 1 \<noteq> 0" by (simp add: E_def)
  have att: "True \<longrightarrow> um_find (g_jit_code_entries example_attached_twice) 8192 = Some 256"
    by (simp add: example_attached_twice(4) um_find_def)
  from Decrement_ok(2)[OF example_attached_twice(2) example_attached_twice(3)[folded E_def] att refl rc]
  obtain s'' where dec: "DecrementJITCodeEntryRefcount True 256 8192 example_attached_twice = Some s''"
    by blast
  from refcount_only_changes[where k = True and entry = 256 and a = 8192
      and s = example_attached_twice and s'' = s'' and e = E]
    dec example_attached_twice(3)[folded E_def] rc
  have d: "debugger_view_unchanged example_attached_twice s''"
    "JITCodeEntry_heap s'' =
       (JITCodeEntry_heap example_attached_twice)(256 \<mapsto> E\<lparr>ref_count := ref_count E - 1\<rparr>)"
    "g_jit_code_entries s'' = um_erase 8192 (g_jit_code_entries example_attached_twice)"
    by blast+
  have "JITCodeEntry_heap s'' 256 =
        Some \<lparr>jit_next = 0, jit_prev = 0, symfile_addr = 1280, symfile_size = 4, ref_count = 1\<rparr>"
    "g_jit_code_entries s'' = [(4096, 256)]"
    by (simp_all add: d(2,3) E_def example_attached_twice(4) um_erase_def)
  with dec d(1) have "\<exists>s''. DecrementJITCodeEntryRefcount True 256 8192 example_attached_twice = Some s'' \<and>
      debugger_view_unchanged example_attached_twice s'' \<and>
      JITCodeEntry_heap s'' 256 =
        Some \<lparr>jit_next = 0, jit_prev = 0, symfile_addr = 1280, symfile_size = 4, ref_count = 1\<rparr> \<and>
      g_jit_code_entries s'' = [(4096, 256)]"
    by blast
  with example_attached(1,3,4) inc show ?thesis by blast
qed

end
